theory Spec2Isabelle
  imports Complex_Main "HOL-Library.Word"
begin

section \<open>Rate limiter (examples/discord-bot/src/utils/rate-limiter.ts)\<close>

text \<open>
  The class keeps a map from guild id to the list of request timestamps, the cap
  \<open>maxRequests\<close> and the window length \<open>windowMs\<close>. \<open>Date.now()\<close> yields integer
  milliseconds, so timestamps are \<open>int\<close>; the clock reading is passed in as \<open>now\<close>.
\<close>

record RateLimiter =
  requests :: "string \<rightharpoonup> int list"
  maxRequests :: int
  windowMs :: int

text \<open>
  The constructor has default parameters (\<open>maxRequests: number = 100\<close>,
  \<open>windowMs: number = 60_000\<close>): an argument that is left out is \<open>None\<close>.
\<close>

definition RateLimiter_new :: "int option \<Rightarrow> int option \<Rightarrow> RateLimiter" where
  "RateLimiter_new cap win =
     \<lparr>requests = Map.empty,
      maxRequests = (case cap of None \<Rightarrow> 100 | Some c \<Rightarrow> c),
      windowMs = (case win of None \<Rightarrow> 60000 | Some w \<Rightarrow> w)\<rparr>"

text \<open>The singleton of the module: \<open>new RateLimiter(100, 60_000)\<close>.\<close>

definition rateLimiter :: RateLimiter where
  "rateLimiter = RateLimiter_new (Some 100) (Some 60000)"

text \<open>\<open>this.requests.get(guildId) || []\<close>\<close>

definition timestamps :: "RateLimiter \<Rightarrow> string \<Rightarrow> int list" where
  "timestamps r g = (case requests r g of None \<Rightarrow> [] | Some ts \<Rightarrow> ts)"

text \<open>\<open>timestamps.filter(ts => now - ts < this.windowMs)\<close>\<close>

definition recentRequests :: "RateLimiter \<Rightarrow> int \<Rightarrow> int list \<Rightarrow> int list" where
  "recentRequests r now ts = filter (\<lambda>t. now - t < windowMs r) ts"

definition isLimited :: "int \<Rightarrow> string \<Rightarrow> RateLimiter \<Rightarrow> bool \<times> RateLimiter" where
  "isLimited now guildId r =
     (let recent = recentRequests r now (timestamps r guildId) in
      if maxRequests r \<le> int (length recent) then (True, r)
      else (False, r\<lparr>requests := (requests r)(guildId \<mapsto> recent @ [now])\<rparr>))"

definition cleanup :: "int \<Rightarrow> RateLimiter \<Rightarrow> RateLimiter" where
  "cleanup now r =
     r\<lparr>requests := (\<lambda>g. case requests r g of
          None \<Rightarrow> None
        | Some ts \<Rightarrow> (let recent = recentRequests r now ts in
                      if length recent = 0 then None else Some recent))\<rparr>"

text \<open>
  A history of the limiter: calls of \<open>isLimited\<close> for some guild and runs of the
  periodic \<open>cleanup\<close>, each with the clock reading it saw.
\<close>

datatype rl_event = Call string int | Sweep int

fun ev_time :: "rl_event \<Rightarrow> int" where
  "ev_time (Call g t) = t"
| "ev_time (Sweep t) = t"

fun rl_step :: "rl_event \<Rightarrow> RateLimiter \<Rightarrow> RateLimiter" where
  "rl_step (Call g t) r = snd (isLimited t g r)"
| "rl_step (Sweep t) r = cleanup t r"

fun rl_run :: "rl_event list \<Rightarrow> RateLimiter \<Rightarrow> RateLimiter" where
  "rl_run [] r = r"
| "rl_run (e # es) r = rl_run es (rl_step e r)"

text \<open>The clock readings of the calls for guild \<open>g\<close> that were let through, in order.\<close>

fun admits :: "string \<Rightarrow> rl_event list \<Rightarrow> RateLimiter \<Rightarrow> int list" where
  "admits g [] r = []"
| "admits g (Call g' t # es) r =
     (if g' = g \<and> \<not> fst (isLimited t g' r) then t # admits g es (rl_step (Call g' t) r)
      else admits g es (rl_step (Call g' t) r))"
| "admits g (Sweep t # es) r = admits g es (rl_step (Sweep t) r)"


section \<open>Config cache (discord-bot config store)\<close>

text \<open>
  A row of the \<open>discord_servers\<close> table. The column \<open>guild_id\<close> is unique, so the table
  is a map from guild id to its row; the column \<open>id\<close> is \<open>rowId\<close> and the column
  \<open>enabled\<close> is \<open>serverEnabled\<close> here.
\<close>

record DiscordServer =
  rowId :: string
  guildId :: string
  guildName :: "string option"
  policyPreset :: string
  logChannelId :: "string option"
  serverEnabled :: bool
  createdAt :: int
  updatedAt :: int
















section \<open>JavaScript strings\<close>

text \<open>
  A JavaScript string is a sequence of UTF-16 code units; \<open>length\<close> counts code units.
  \<open>js\<close> writes an ASCII literal.
\<close>

type_synonym jsstring = "16 word list"

definition js :: "string \<Rightarrow> jsstring" where
  "js s = map (\<lambda>c. of_nat (of_char c)) s"

text \<open>
  \<open>String.prototype.trim\<close> removes the ECMAScript white space and line terminator code
  points from both ends; all of them are single code units.
\<close>

definition isWhiteSpace :: "16 word \<Rightarrow> bool" where
  "isWhiteSpace c \<longleftrightarrow>
     c = 0x0009 \<or> c = 0x000A \<or> c = 0x000B \<or> c = 0x000C \<or> c = 0x000D \<or> c = 0x0020
     \<or> c = 0x00A0 \<or> c = 0x1680 \<or> (0x2000 \<le> c \<and> c \<le> 0x200A)
     \<or> c = 0x2028 \<or> c = 0x2029 \<or> c = 0x202F \<or> c = 0x205F \<or> c = 0x3000 \<or> c = 0xFEFF"

definition trim :: "jsstring \<Rightarrow> jsstring" where
  "trim s = rev (dropWhile isWhiteSpace (rev (dropWhile isWhiteSpace s)))"

section \<open>The moderation hook (packages/react/src/useModeration.ts)\<close>

datatype action = Allow | Warn | Flag | Block

datatype contentType = Text | Image | Video

record category_entry =
  category :: jsstring
  score :: real
  threshold :: real
  violated :: bool

record ModerationResult =
  safe :: bool
  flagged :: bool
  action :: action
  categories :: "category_entry list"
  isChecking :: bool
  error :: "jsstring option"

text \<open>The metadata object that the video upload attaches to its request.\<close>

record Metadata =
  totalFrames :: nat
  videoDuration :: real
  filename :: jsstring
  fileSize :: nat
  demoMode :: bool

record CheckRequest =
  content :: jsstring
  req_policyId :: jsstring
  req_contentType :: contentType
  metadata :: "Metadata option"

text \<open>The fields of \<open>CheckResponse\<close> that the hook reads; \<open>categories\<close> may be missing.\<close>

record CheckResponse =
  decisionId :: jsstring
  resp_safe :: bool
  resp_flagged :: bool
  resp_action :: action
  resp_categories :: "category_entry list option"

record js_error =
  err_name :: jsstring
  message :: jsstring

text \<open>
  The options of one render. \<open>debounceMs\<close> and \<open>enabled\<close> are optional with defaults
  500 and true; \<open>onCheck\<close> and \<open>onError\<close> say whether the callback was supplied.
\<close>

record UseModerationOptions =
  apiKey :: jsstring
  policyId :: jsstring
  debounceMs :: "nat option"
  enabled :: "bool option"
  onCheck :: bool
  onError :: bool

definition debounceMs_of :: "UseModerationOptions \<Rightarrow> nat" where
  "debounceMs_of opts = (case debounceMs opts of None \<Rightarrow> 500 | Some d \<Rightarrow> d)"

definition enabled_of :: "UseModerationOptions \<Rightarrow> bool" where
  "enabled_of opts = (case enabled opts of None \<Rightarrow> True | Some e \<Rightarrow> e)"

text \<open>The argument of \<open>check\<close>: \<open>string | CheckRequest\<close>.\<close>

datatype check_content = Str jsstring | Req CheckRequest

text \<open>
  A pending timer of \<open>setTimeout\<close>: its handle, the time from which it may fire, the number
  of the \<open>check\<close> call that set it, and the content its callback has captured.
\<close>

record timer =
  handle :: nat
  deadline :: nat
  issue :: nat
  captured :: check_content

text \<open>A request of \<open>clientRef.current.check\<close> that has not settled yet.\<close>

record pending_request =
  rid :: nat
  req_issue :: nat
  request :: CheckRequest

datatype outcome = Resolved CheckResponse | Rejected js_error

text \<open>
  The state of one hook instance and of the environment it talks to.
  \<^item> \<open>result\<close> is the React state; \<open>clientRef\<close>, \<open>timeoutRef\<close> and \<open>abortControllerRef\<close> are
    the three refs (\<open>clientRef\<close> holds the api key of the client, a timer ref holds a timer
    handle, a controller ref holds the number of a controller).
  \<^item> \<open>timers\<close> are the pending timers of the event loop (their handles are positive
    numbers, as in a browser, so a stored handle is truthy), \<open>aborted\<close> holds one flag per
    \<open>AbortController\<close> created so far, \<open>inflight\<close> are the requests awaiting their response.
  \<^item> \<open>sent\<close> logs every remote call with the number of the \<open>check\<close> call it came from,
    \<open>delivered\<close> logs every outcome that reached \<open>setResult\<close> and the callbacks, and
    \<open>onCheck_calls\<close> and \<open>onError_calls\<close> log the callback invocations.
  \<^item> \<open>issued\<close> counts the \<open>check\<close> calls that got past the first line of \<open>check\<close>
    (enabled, client present); the call that finds \<open>issued = k\<close> is call number \<open>k\<close>.
\<close>

record hook_state =
  result :: ModerationResult
  clientRef :: "jsstring option"
  timeoutRef :: "nat option"
  abortControllerRef :: "nat option"
  timers :: "timer list"
  next_timer :: nat
  aborted :: "bool list"
  inflight :: "pending_request list"
  next_rid :: nat
  sent :: "(nat \<times> CheckRequest) list"
  delivered :: "(nat \<times> outcome) list"
  onCheck_calls :: "CheckResponse list"
  onError_calls :: "js_error list"
  issued :: nat

definition safe_result :: ModerationResult where
  "safe_result =
     \<lparr>safe = True, flagged = False, action = Allow, categories = [], isChecking = False,
      error = None\<rparr>"

text \<open>
  The first render: \<open>useState\<close> and \<open>useRef\<close> give the initial values, and the effect
  creates the client unless the api key is empty.
\<close>

definition useModeration :: "UseModerationOptions \<Rightarrow> hook_state" where
  "useModeration opts =
     \<lparr>result = safe_result,
      clientRef = (if apiKey opts = [] then None else Some (apiKey opts)),
      timeoutRef = None, abortControllerRef = None,
      timers = [], next_timer = 1, aborted = [], inflight = [], next_rid = 0,
      sent = [], delivered = [], onCheck_calls = [], onError_calls = [], issued = 0\<rparr>"

text \<open>\<open>controller.abort()\<close> sets the flag of the controller; nothing listens to it.\<close>

definition abort :: "nat \<Rightarrow> hook_state \<Rightarrow> hook_state" where
  "abort c s = s\<lparr>aborted := (aborted s)[c := True]\<rparr>"

definition clearTimeout :: "nat \<Rightarrow> hook_state \<Rightarrow> hook_state" where
  "clearTimeout h s = s\<lparr>timers := filter (\<lambda>tm. handle tm \<noteq> h) (timers s)\<rparr>"

text \<open>
  \<open>setTimeout(callback, delay)\<close> at time \<open>now\<close>, for the \<open>check\<close> call number \<open>k\<close> whose
  callback has captured \<open>c\<close>; it returns the new handle.
\<close>

definition setTimeout ::
  "nat \<Rightarrow> nat \<Rightarrow> nat \<Rightarrow> check_content \<Rightarrow> hook_state \<Rightarrow> nat \<times> hook_state" where
  "setTimeout now delay k c s =
     (next_timer s,
      s\<lparr>timers := timers s @ [\<lparr>handle = next_timer s, deadline = now + delay,
                                 issue = k, captured = c\<rparr>],
        next_timer := Suc (next_timer s)\<rparr>)"

text \<open>\<open>typeof content === 'string' && !content.trim()\<close>\<close>

fun is_blank :: "check_content \<Rightarrow> bool" where
  "is_blank (Str str) = (trim str = [])"
| "is_blank (Req r) = False"

text \<open>
  \<open>check(content)\<close>, called at time \<open>now\<close>: the part that runs at once. The callback
  given to \<open>setTimeout\<close> is \<open>timer_fired\<close> below.
\<close>

definition check :: "UseModerationOptions \<Rightarrow> check_content \<Rightarrow> nat \<Rightarrow> hook_state \<Rightarrow> hook_state" where
  "check opts c now s =
     (if \<not> enabled_of opts \<or> clientRef s = None then s
      else
        let s0 = s\<lparr>issued := Suc (issued s)\<rparr>;
            s1 = (case abortControllerRef s0 of None \<Rightarrow> s0 | Some ctl \<Rightarrow> abort ctl s0);
            s2 = (case timeoutRef s1 of None \<Rightarrow> s1 | Some h \<Rightarrow> clearTimeout h s1)
        in if is_blank c then s2\<lparr>result := safe_result\<rparr>
           else
             let s3 = s2\<lparr>result := (result s2)\<lparr>isChecking := True, error := None\<rparr>\<rparr>;
                 (h, s4) = setTimeout now (debounceMs_of opts) (issued s) c s3
             in s4\<lparr>timeoutRef := Some h\<rparr>)"

text \<open>The request that the timer callback builds from the captured content.\<close>

fun checkRequest :: "UseModerationOptions \<Rightarrow> check_content \<Rightarrow> CheckRequest" where
  "checkRequest opts (Str str) =
     \<lparr>content = str, req_policyId = policyId opts, req_contentType = Text, metadata = None\<rparr>"
| "checkRequest opts (Req r) = r\<lparr>req_policyId := policyId opts\<rparr>"

text \<open>
  What the \<open>catch\<close> block does with an error; the \<open>try\<close> block ends here for a rejected
  request and for an exception thrown before the request was made.
\<close>

definition catch_error :: "UseModerationOptions \<Rightarrow> nat \<Rightarrow> js_error \<Rightarrow> hook_state \<Rightarrow> hook_state" where
  "catch_error opts k err s =
     (if err_name err = js ''AbortError'' then s
      else s\<lparr>result := (result s)\<lparr>isChecking := False,
                 error := Some (if message err = [] then js ''Failed to check content''
                                else message err)\<rparr>,
             delivered := delivered s @ [(k, Rejected err)],
             onError_calls := (if onError opts then onError_calls s @ [err] else onError_calls s)\<rparr>)"

text \<open>
  The timer with handle \<open>h\<close> fires at time \<open>now\<close>: possible only while it is pending and
  from its deadline on. The callback creates a controller, builds the request and calls the
  client, which sends the request at once; the callback then waits for the response. With no
  client, \<open>clientRef.current!.check\<close> throws a \<open>TypeError\<close> inside the \<open>try\<close> block.
\<close>

definition timer_fired :: "UseModerationOptions \<Rightarrow> nat \<Rightarrow> nat \<Rightarrow> hook_state \<Rightarrow> hook_state" where
  "timer_fired opts h now s =
     (case find (\<lambda>tm. handle tm = h) (timers s) of
        None \<Rightarrow> s
      | Some tm \<Rightarrow>
          if now < deadline tm then s
          else
            let s1 = s\<lparr>timers := filter (\<lambda>tm. handle tm \<noteq> h) (timers s)\<rparr>;
                s2 = s1\<lparr>abortControllerRef := Some (length (aborted s1)),
                        aborted := aborted s1 @ [False]\<rparr>;
                rq = checkRequest opts (captured tm)
            in if clientRef s2 = None
               then catch_error opts (issue tm)
                      \<lparr>err_name = js ''TypeError'', message = js ''clientRef.current is null''\<rparr> s2
               else s2\<lparr>inflight := inflight s2 @ [\<lparr>rid = next_rid s2, req_issue = issue tm,
                                                     request = rq\<rparr>],
                        next_rid := Suc (next_rid s2),
                        sent := sent s2 @ [(issue tm, rq)]\<rparr>)"

text \<open>
  The request \<open>r\<close> settles: the callback that awaits it goes on after the \<open>await\<close>, with
  the response or, in the \<open>catch\<close> block, with the error.
\<close>

definition settled :: "UseModerationOptions \<Rightarrow> nat \<Rightarrow> outcome \<Rightarrow> hook_state \<Rightarrow> hook_state" where
  "settled opts r out s =
     (case find (\<lambda>p. rid p = r) (inflight s) of
        None \<Rightarrow> s
      | Some p \<Rightarrow>
          let s1 = s\<lparr>inflight := filter (\<lambda>p. rid p \<noteq> r) (inflight s)\<rparr>
          in case out of
               Resolved response \<Rightarrow>
                 s1\<lparr>result := \<lparr>safe = resp_safe response, flagged = resp_flagged response,
                               action = resp_action response,
                               categories = (case resp_categories response of
                                               None \<Rightarrow> [] | Some cs \<Rightarrow> cs),
                               isChecking = False, error = None\<rparr>,
                    delivered := delivered s1 @ [(req_issue p, out)],
                    onCheck_calls := (if onCheck opts then onCheck_calls s1 @ [response]
                                      else onCheck_calls s1)\<rparr>
             | Rejected err \<Rightarrow> catch_error opts (req_issue p) err s1)"

text \<open>The cleanup effect on unmount.\<close>

definition unmount :: "hook_state \<Rightarrow> hook_state" where
  "unmount s =
     (let s1 = (case timeoutRef s of None \<Rightarrow> s | Some h \<Rightarrow> clearTimeout h s)
      in case abortControllerRef s1 of None \<Rightarrow> s1 | Some ctl \<Rightarrow> abort ctl s1)"

text \<open>A history of one hook instance.\<close>

datatype hook_event =
    Check check_content nat
  | Fire nat nat
  | Settle nat outcome
  | Unmount

fun hook_step :: "UseModerationOptions \<Rightarrow> hook_event \<Rightarrow> hook_state \<Rightarrow> hook_state" where
  "hook_step opts (Check c now) s = check opts c now s"
| "hook_step opts (Fire h now) s = timer_fired opts h now s"
| "hook_step opts (Settle r out) s = settled opts r out s"
| "hook_step opts Unmount s = unmount s"

fun hook_run :: "UseModerationOptions \<Rightarrow> hook_event list \<Rightarrow> hook_state \<Rightarrow> hook_state" where
  "hook_run opts [] s = s"
| "hook_run opts (e # es) s = hook_run opts es (hook_step opts e s)"

section \<open>The moderated textarea (ModeratedTextarea.tsx)\<close>

text \<open>
  The component keeps \<open>internalValue\<close>; \<open>onChange_calls\<close> logs the calls of the
  \<open>onChange\<close> prop with the value and the \<open>safe\<close>, \<open>flagged\<close> and \<open>action\<close> passed to it.
\<close>

record textarea_state =
  internalValue :: jsstring
  onChange_calls :: "(jsstring \<times> bool \<times> bool \<times> action) list"

text \<open>
  The props that \<open>handleChange\<close> reads: \<open>blockUnsafe\<close> is optional with default false,
  \<open>onChange\<close> says whether the callback was supplied.
\<close>

record ModeratedTextareaProps =
  blockUnsafe :: "bool option"
  onChange :: bool

definition blockUnsafe_of :: "ModeratedTextareaProps \<Rightarrow> bool" where
  "blockUnsafe_of props = (case blockUnsafe props of None \<Rightarrow> False | Some b \<Rightarrow> b)"

text \<open>\<open>handleChange\<close> for a change event with \<open>e.target.value = newValue\<close>, under the
  moderation result of the current render.\<close>

definition handleChange ::
  "ModeratedTextareaProps \<Rightarrow> ModerationResult \<Rightarrow> jsstring \<Rightarrow> textarea_state \<Rightarrow> textarea_state" where
  "handleChange props res newValue s =
     (if blockUnsafe_of props \<and> \<not> safe res \<and> length newValue > length (internalValue s) then s
      else s\<lparr>internalValue := newValue,
             onChange_calls := (if onChange props
                                then onChange_calls s @ [(newValue, safe res, flagged res, action res)]
                                else onChange_calls s)\<rparr>)"

text \<open>A series of change events, all under the same moderation result.\<close>

fun handleChanges ::
  "ModeratedTextareaProps \<Rightarrow> ModerationResult \<Rightarrow> jsstring list \<Rightarrow> textarea_state \<Rightarrow> textarea_state" where
  "handleChanges props res [] s = s"
| "handleChanges props res (v # vs) s = handleChanges props res vs (handleChange props res v s)"

section \<open>The moderated video upload (packages/react/src/ModeratedVideoUpload.tsx)\<close>

text \<open>
  The props that the upload logic reads. Optional props are \<open>None\<close> when the caller leaves
  them out; the callbacks are flags saying whether they were supplied. The props \<open>apiKey\<close>
  and \<open>policyId\<close> are \<open>vp_apiKey\<close> and \<open>vp_policyId\<close> here.
\<close>

record ModeratedVideoUploadProps =
  vp_apiKey :: jsstring
  vp_policyId :: jsstring
  onReject :: bool
  maxSizeMB :: "real option"
  maxDurationSeconds :: "real option"
  acceptedFormats :: "jsstring list option"
  extractFramesCount :: "nat option"
  disabled :: "bool option"
  onModerationResult :: bool
  onModerationError :: bool

text \<open>The default values of the destructuring in the component's parameter list.\<close>

definition maxSizeMB_of :: "ModeratedVideoUploadProps \<Rightarrow> real" where
  "maxSizeMB_of props = (case maxSizeMB props of None \<Rightarrow> 100 | Some m \<Rightarrow> m)"

definition maxDurationSeconds_of :: "ModeratedVideoUploadProps \<Rightarrow> real" where
  "maxDurationSeconds_of props = (case maxDurationSeconds props of None \<Rightarrow> 300 | Some m \<Rightarrow> m)"

definition acceptedFormats_of :: "ModeratedVideoUploadProps \<Rightarrow> jsstring list" where
  "acceptedFormats_of props =
     (case acceptedFormats props of
        None \<Rightarrow> [js ''video/mp4'', js ''video/webm'', js ''video/quicktime'']
      | Some fs \<Rightarrow> fs)"

definition extractFramesCount_of :: "ModeratedVideoUploadProps \<Rightarrow> nat" where
  "extractFramesCount_of props = (case extractFramesCount props of None \<Rightarrow> 3 | Some n \<Rightarrow> n)"

definition disabled_of :: "ModeratedVideoUploadProps \<Rightarrow> bool" where
  "disabled_of props = (case disabled props of None \<Rightarrow> False | Some d \<Rightarrow> d)"

text \<open>The options that the component passes to \<open>useModeration\<close>.\<close>

definition hook_options :: "ModeratedVideoUploadProps \<Rightarrow> UseModerationOptions" where
  "hook_options props =
     \<lparr>apiKey = vp_apiKey props, policyId = vp_policyId props, debounceMs = Some 0,
      enabled = Some (\<not> disabled_of props), onCheck = onModerationResult props,
      onError = onModerationError props\<rparr>"

record File =
  file_name :: jsstring
  file_type :: jsstring
  file_size :: nat

text \<open>
  The video element, with the part of the browser that answers it. JavaScript numbers are
  taken as real numbers. \<open>picture t\<close> is the data URL that the canvas yields when the
  element shows time \<open>t\<close>; \<open>seekResponse t\<close> is what follows a seek to \<open>t\<close>: the
  \<open>seeked\<close> event, the \<open>error\<close> event, or nothing. \<open>events\<close> is the element's history.
\<close>

datatype seek_outcome = Seeked | SeekFailed | SeekPending

datatype media_event = SeekIssued real | FrameCaptured real

record VideoElement =
  duration :: real
  currentTime :: real
  picture :: "real \<Rightarrow> jsstring"
  seekResponse :: "real \<Rightarrow> seek_outcome"
  events :: "media_event list"

text \<open>
  The texts shown to the user, by their template: \<open>InvalidFileType\<close> and
  \<open>FileSizeExceeds\<close> come from \<open>validateFile\<close>, \<open>DurationExceeds d m\<close> is
  \<open>Video duration (d s) exceeds m s limit\<close>, \<open>ErrorMessage\<close> is the message of a caught
  error, \<open>LoadFailed\<close> is \<open>Failed to load video metadata\<close>.
\<close>

datatype user_message =
    InvalidFileType "jsstring list"
  | FileSizeExceeds real
  | DurationExceeds real real
  | ErrorMessage jsstring
  | LoadFailed

datatype stage =
    StageEmpty
  | GeneratingThumbnail
  | ExtractingFramesForAnalysis
  | ExtractingFrames real
  | AnalyzingVideoContent
  | ModerationComplete

record upload_state =
  st_file :: "File option"
  preview :: "jsstring option"
  thumbnail :: "jsstring option"
  st_duration :: real
  uploadError :: "user_message option"
  frameExtractionProgress :: real
  processingStage :: stage
  onReject_calls :: "(File \<times> user_message) list"
  hook :: hook_state

definition ModeratedVideoUpload :: "ModeratedVideoUploadProps \<Rightarrow> upload_state" where
  "ModeratedVideoUpload props =
     \<lparr>st_file = None, preview = None, thumbnail = None, st_duration = 0, uploadError = None,
      frameExtractionProgress = 0, processingStage = StageEmpty, onReject_calls = [],
      hook = useModeration (hook_options props)\<rparr>"

definition validateFile :: "ModeratedVideoUploadProps \<Rightarrow> File \<Rightarrow> user_message option" where
  "validateFile props selectedFile =
     (if file_type selectedFile \<notin> set (acceptedFormats_of props)
      then Some (InvalidFileType (acceptedFormats_of props))
      else if real (file_size selectedFile) / (1024 * 1024) > maxSizeMB_of props
      then Some (FileSizeExceeds (maxSizeMB_of props))
      else None)"

text \<open>\<open>setUploadError(m)\<close> followed by \<open>if (onReject) onReject(selectedFile, m)\<close>.\<close>

definition reject_file ::
  "ModeratedVideoUploadProps \<Rightarrow> File \<Rightarrow> user_message \<Rightarrow> upload_state \<Rightarrow> upload_state" where
  "reject_file props selectedFile m s =
     s\<lparr>uploadError := Some m,
       onReject_calls := (if onReject props then onReject_calls s @ [(selectedFile, m)]
                          else onReject_calls s)\<rparr>"

text \<open>
  \<open>generateThumbnail\<close>. \<open>ctx\<close> says whether the canvas gives a 2d context. The result is
  \<open>None\<close> when the promise never settles, \<open>Some (Inl m)\<close> when it rejects or the function
  throws, \<open>Some (Inr url)\<close> when it resolves.
\<close>

definition generateThumbnail ::
  "bool \<Rightarrow> VideoElement \<Rightarrow> VideoElement \<times> (user_message + jsstring) option" where
  "generateThumbnail ctx video =
     (if \<not> ctx then (video, Some (Inl (ErrorMessage (js ''Canvas context not available''))))
      else
        let seekTime = min 1 (duration video * 0.1);
            v1 = video\<lparr>currentTime := seekTime, events := events video @ [SeekIssued seekTime]\<rparr>
        in case seekResponse v1 seekTime of
             Seeked \<Rightarrow>
               (v1\<lparr>events := events v1 @ [FrameCaptured seekTime]\<rparr>,
                Some (Inr (picture v1 seekTime)))
           | SeekFailed \<Rightarrow> (v1, Some (Inl (ErrorMessage (js ''Failed to generate thumbnail''))))
           | SeekPending \<Rightarrow> (v1, None))"

text \<open>
  The \<open>for\<close> loop of \<open>extractFrames\<close> from index \<open>i\<close> on, with \<open>n = extractFramesCount\<close>.
  Each round awaits a promise that only the \<open>seeked\<close> event resolves: after any other
  response the loop never goes on and the function never returns (\<open>None\<close>).
\<close>

function extractLoop ::
  "nat \<Rightarrow> real \<Rightarrow> nat \<Rightarrow> VideoElement \<Rightarrow> upload_state \<Rightarrow> jsstring list
   \<Rightarrow> VideoElement \<times> upload_state \<times> jsstring list option" where
  "extractLoop n interval i video s frames =
     (if i < n then
        let time = real i * interval;
            v1 = video\<lparr>currentTime := time, events := events video @ [SeekIssued time]\<rparr>
        in if seekResponse v1 time = Seeked then
             let v2 = v1\<lparr>events := events v1 @ [FrameCaptured time]\<rparr>;
                 frames' = frames @ [picture v2 time];
                 progress = (real (i + 1) / real n) * 100;
                 s' = s\<lparr>frameExtractionProgress := progress,
                        processingStage := ExtractingFrames progress\<rparr>
             in extractLoop n interval (Suc i) v2 s' frames'
           else (v1, s, None)
      else (video, s, Some frames))"
  by pat_completeness auto
termination
  by (relation "measure (\<lambda>(n, interval, i, video, s, frames). n - i)") auto

declare extractLoop.simps [simp del]

text \<open>
  \<open>extractFrames\<close>. With \<open>extractFramesCount = 0\<close> the interval is not used, as the loop
  body never runs.
\<close>

definition extractFrames ::
  "bool \<Rightarrow> ModeratedVideoUploadProps \<Rightarrow> VideoElement \<Rightarrow> upload_state
   \<Rightarrow> VideoElement \<times> upload_state \<times> (user_message + jsstring list) option" where
  "extractFrames ctx props video s =
     (if \<not> ctx then (video, s, Some (Inl (ErrorMessage (js ''Failed to get canvas context''))))
      else
        let interval = duration video / real (extractFramesCount_of props);
            s1 = s\<lparr>processingStage := ExtractingFramesForAnalysis\<rparr>
        in case extractLoop (extractFramesCount_of props) interval 0 video s1 [] of
             (v', s2, None) \<Rightarrow> (v', s2, None)
           | (v', s2, Some frames) \<Rightarrow>
               (v', s2\<lparr>processingStage := AnalyzingVideoContent\<rparr>, Some (Inr frames)))"

text \<open>The \<open>catch\<close> block of the metadata handler.\<close>

definition caught ::
  "ModeratedVideoUploadProps \<Rightarrow> File \<Rightarrow> user_message \<Rightarrow> upload_state \<Rightarrow> upload_state" where
  "caught props selectedFile m s =
     (let s1 = s\<lparr>uploadError := Some m, processingStage := StageEmpty\<rparr>
      in s1\<lparr>onReject_calls := (if onReject props then onReject_calls s1 @ [(selectedFile, m)]
                                 else onReject_calls s1)\<rparr>)"

text \<open>The request that the handler passes to \<open>check\<close> for the extracted frames.\<close>

definition video_request ::
  "ModeratedVideoUploadProps \<Rightarrow> File \<Rightarrow> VideoElement \<Rightarrow> jsstring list \<Rightarrow> CheckRequest" where
  "video_request props selectedFile video frames =
     \<lparr>content = (case frames of [] \<Rightarrow> [] | f # _ \<Rightarrow> if f = [] then [] else f),
      req_policyId = vp_policyId props,
      req_contentType = Video,
      metadata = Some \<lparr>totalFrames = length frames, videoDuration = duration video,
                       filename = file_name selectedFile, fileSize = file_size selectedFile,
                       demoMode = True\<rparr>\<rparr>"

text \<open>
  The handler \<open>video.onloadedmetadata\<close> of \<open>processFile\<close>, run at time \<open>now\<close> for the
  element whose metadata has loaded. A handler that waits forever leaves the state as it
  was when it stopped.
\<close>

definition onloadedmetadata ::
  "bool \<Rightarrow> ModeratedVideoUploadProps \<Rightarrow> File \<Rightarrow> VideoElement \<Rightarrow> nat \<Rightarrow> upload_state
   \<Rightarrow> VideoElement \<times> upload_state" where
  "onloadedmetadata ctx props selectedFile video now s =
     (let videoDuration = duration video;
          s1 = s\<lparr>st_duration := videoDuration\<rparr>
      in if videoDuration > maxDurationSeconds_of props
         then (video, reject_file props selectedFile
                        (DurationExceeds videoDuration (maxDurationSeconds_of props)) s1)
         else
           let s2 = s1\<lparr>processingStage := GeneratingThumbnail\<rparr>
           in case generateThumbnail ctx video of
                (v1, None) \<Rightarrow> (v1, s2)
              | (v1, Some (Inl m)) \<Rightarrow> (v1, caught props selectedFile m s2)
              | (v1, Some (Inr thumbnailUrl)) \<Rightarrow>
                  (case extractFrames ctx props v1 (s2\<lparr>thumbnail := Some thumbnailUrl\<rparr>) of
                     (v2, s4, None) \<Rightarrow> (v2, s4)
                   | (v2, s4, Some (Inl m)) \<Rightarrow> (v2, caught props selectedFile m s4)
                   | (v2, s4, Some (Inr frames)) \<Rightarrow>
                       let s5 = (if length frames > 0
                                 then s4\<lparr>hook := check (hook_options props)
                                                (Req (video_request props selectedFile video frames))
                                                now (hook s4)\<rparr>
                                 else s4)
                       in (v2, s5\<lparr>processingStage := ModerationComplete\<rparr>)))"

text \<open>
  \<open>processFile\<close> up to the point where the video element starts loading; \<open>url\<close> is the
  object URL of the file. The flag says whether the element was created.
\<close>

definition processFile ::
  "ModeratedVideoUploadProps \<Rightarrow> File \<Rightarrow> jsstring \<Rightarrow> upload_state \<Rightarrow> upload_state \<times> bool" where
  "processFile props selectedFile url s =
     (let s1 = s\<lparr>uploadError := None, frameExtractionProgress := 0, processingStage := StageEmpty\<rparr>
      in case validateFile props selectedFile of
           Some m \<Rightarrow> (reject_file props selectedFile m s1, False)
         | None \<Rightarrow> (s1\<lparr>preview := Some url, st_file := Some selectedFile\<rparr>, True))"

text \<open>\<open>processFile\<close> for a file whose metadata then loads as \<open>video\<close>.\<close>

definition processFile_loaded ::
  "bool \<Rightarrow> ModeratedVideoUploadProps \<Rightarrow> File \<Rightarrow> jsstring \<Rightarrow> VideoElement \<Rightarrow> nat \<Rightarrow> upload_state
   \<Rightarrow> VideoElement \<times> upload_state" where
  "processFile_loaded ctx props selectedFile url video now s =
     (case processFile props selectedFile url s of
        (s1, False) \<Rightarrow> (video, s1)
      | (s1, True) \<Rightarrow> onloadedmetadata ctx props selectedFile video now s1)"

subsection \<open>The sampling schedule\<close>

text \<open>The sample times \<open>i * (d / n)\<close> for \<open>i\<close> in \<open>[0, n)\<close>.\<close>

definition sample_times :: "nat \<Rightarrow> real \<Rightarrow> real list" where
  "sample_times n d = map (\<lambda>i. real i * (d / real n)) [0..<n]"

text \<open>
  The history of seeking to the times \<open>ts\<close> one after the other, where a seek is issued
  only once the frame of the previous one has been captured.
\<close>

fun seek_trace :: "(real \<Rightarrow> seek_outcome) \<Rightarrow> real list \<Rightarrow> media_event list" where
  "seek_trace resp [] = []"
| "seek_trace resp (t # ts) =
     (if resp t = Seeked then SeekIssued t # FrameCaptured t # seek_trace resp ts
      else [SeekIssued t])"

text \<open>
  A history in which no seek is issued while another is under way: every seek but the last
  is followed at once by the capture of its own frame.
\<close>

fun sequential :: "media_event list \<Rightarrow> bool" where
  "sequential [] = True"
| "sequential [SeekIssued t] = True"
| "sequential (SeekIssued t # FrameCaptured t' # es) = (t' = t \<and> sequential es)"
| "sequential (e # es) = False"

text \<open>The times sought in a history.\<close>

fun seek_times :: "media_event list \<Rightarrow> real list" where
  "seek_times [] = []"
| "seek_times (SeekIssued t # es) = t # seek_times es"
| "seek_times (FrameCaptured t # es) = seek_times es"

subsection \<open>Sample inputs\<close>

text \<open>
  A video element of duration \<open>d\<close> on which every seek completes and whose picture at
  time \<open>t\<close> is the text \<open>frame-0\<close> at the start and \<open>frame-n\<close> later on.
\<close>

definition always_seeked :: "real \<Rightarrow> seek_outcome" where
  "always_seeked t = Seeked"

definition frame_at :: "real \<Rightarrow> jsstring" where
  "frame_at t = (if t = 0 then js ''frame-0'' else js ''frame-n'')"

definition sample_video :: "real \<Rightarrow> VideoElement" where
  "sample_video d =
     \<lparr>duration = d, currentTime = 0, picture = frame_at, seekResponse = always_seeked,
      events = []\<rparr>"

text \<open>A 10 s video on which the seek to 5 s ends with an error.\<close>

definition fails_at_five :: "real \<Rightarrow> seek_outcome" where
  "fails_at_five t = (if t = 5 then SeekFailed else Seeked)"

definition broken_video :: VideoElement where
  "broken_video =
     \<lparr>duration = 10, currentTime = 0, picture = frame_at, seekResponse = fails_at_five,
      events = []\<rparr>"

text \<open>Props with only the required ones and the frame count given.\<close>

definition sample_props :: "nat option \<Rightarrow> ModeratedVideoUploadProps" where
  "sample_props n =
     \<lparr>vp_apiKey = js ''key'', vp_policyId = js ''balanced'', onReject = True,
      maxSizeMB = None, maxDurationSeconds = None, acceptedFormats = None,
      extractFramesCount = n, disabled = None, onModerationResult = True,
      onModerationError = True\<rparr>"

definition sample_file :: File where
  "sample_file = \<lparr>file_name = js ''clip.mp4'', file_type = js ''video/mp4'', file_size = 1048576\<rparr>"

text \<open>Options of a hook with all callbacks and the default delay of 500 ms.\<close>

definition sample_options :: UseModerationOptions where
  "sample_options =
     \<lparr>apiKey = js ''key'', policyId = js ''balanced'', debounceMs = None, enabled = None,
      onCheck = True, onError = True\<rparr>"

text \<open>A request object for the text that is a single space.\<close>

definition blank_text_request :: CheckRequest where
  "blank_text_request =
     \<lparr>content = [0x20], req_policyId = js ''balanced'', req_contentType = Text, metadata = None\<rparr>"

text \<open>A response that blocks, and a network error.\<close>

definition block_response :: CheckResponse where
  "block_response =
     \<lparr>decisionId = js ''d1'', resp_safe = False, resp_flagged = True, resp_action = Block,
      resp_categories = None\<rparr>"

definition network_error :: js_error where
  "network_error = \<lparr>err_name = js ''TypeError'', message = js ''Failed to fetch''\<rparr>"

subsection \<open>Invariants of a hook history\<close>

text \<open>
  Handles, request numbers and call numbers that occur in a state are older than the
  next ones to be given out.
\<close>

definition hook_inv :: "hook_state \<Rightarrow> bool" where
  "hook_inv s \<longleftrightarrow>
     (\<forall>tm\<in>set (timers s). handle tm < next_timer s \<and> issue tm < issued s)
     \<and> (\<forall>p\<in>set (inflight s). rid p < next_rid s \<and> req_issue p < issued s)
     \<and> (\<forall>x\<in>set (sent s). fst x < issued s)
     \<and> (\<forall>x\<in>set (delivered s). fst x < issued s)"

text \<open>
  Call number \<open>k\<close> is over without a request: it has been made, no timer of it is pending,
  and no request of it is in flight, was sent or was delivered.
\<close>

definition retired :: "nat \<Rightarrow> hook_state \<Rightarrow> bool" where
  "retired k s \<longleftrightarrow>
     k < issued s
     \<and> (\<forall>tm\<in>set (timers s). issue tm \<noteq> k)
     \<and> (\<forall>p\<in>set (inflight s). req_issue p \<noteq> k)
     \<and> (\<forall>x\<in>set (sent s). fst x \<noteq> k)
     \<and> (\<forall>x\<in>set (delivered s). fst x \<noteq> k)"

text \<open>
  Call number \<open>k\<close> is still in its debounce delay: a timer of it, if any, is the one that
  \<open>timeoutRef\<close> holds and may fire from \<open>dl\<close> on, and no request of it exists yet.
\<close>

definition waiting :: "nat \<Rightarrow> nat \<Rightarrow> hook_state \<Rightarrow> bool" where
  "waiting k dl s \<longleftrightarrow>
     k < issued s
     \<and> (\<forall>tm\<in>set (timers s). issue tm = k \<longrightarrow> deadline tm = dl \<and> timeoutRef s = Some (handle tm))
     \<and> (\<forall>p\<in>set (inflight s). req_issue p \<noteq> k)
     \<and> (\<forall>x\<in>set (sent s). fst x \<noteq> k)
     \<and> (\<forall>x\<in>set (delivered s). fst x \<noteq> k)"

text \<open>An event that happens before time \<open>dl\<close>, as far as it has a time.\<close>

fun before :: "nat \<Rightarrow> hook_event \<Rightarrow> bool" where
  "before dl (Fire h t) = (t < dl)"
| "before dl (Check c t) = (t < dl)"
| "before dl e = True"
subsection \<open>Properties of the rate limiter\<close>

lemma rl_step_params [simp]:
  "maxRequests (rl_step e r) = maxRequests r" "windowMs (rl_step e r) = windowMs r"
  by (cases e; simp add: isLimited_def cleanup_def Let_def)+

lemma rl_run_params [simp]:
  "maxRequests (rl_run es r) = maxRequests r" "windowMs (rl_run es r) = windowMs r"
  by (induction es arbitrary: r; simp)+

lemma recent_of_recent:
  "t \<le> now \<Longrightarrow>
   filter (\<lambda>x. t - x < (w::int) \<and> now - x < w) ts = filter (\<lambda>x. now - x < w) ts"
  by (induction ts) auto

lemma recent_empty:
  "t \<le> now \<Longrightarrow> filter (\<lambda>x. t - x < (w::int)) ts = [] \<Longrightarrow> filter (\<lambda>x. now - x < w) ts = []"
  by (induction ts) (auto split: if_splits)

lemma timestamps_step_recent:
  assumes "ev_time e \<le> now"
  shows "recentRequests r now (timestamps (rl_step e r) g) =
         recentRequests r now (timestamps r g) @ recentRequests r now (admits g [e] r)"
proof (cases e)
  case (Call g' t)
  with assms have "t \<le> now" by simp
  then show ?thesis
    using Call
    by (auto simp: isLimited_def timestamps_def recentRequests_def Let_def recent_of_recent)
next
  case (Sweep t)
  with assms have "t \<le> now" by simp
  then show ?thesis
    using Sweep
    by (auto simp: cleanup_def timestamps_def recentRequests_def Let_def recent_of_recent
        recent_empty split: option.splits)
qed

lemma timestamps_run_recent:
  assumes "\<forall>e\<in>set es. ev_time e \<le> now"
  shows "recentRequests r now (timestamps (rl_run es r) g) =
         recentRequests r now (timestamps r g) @ recentRequests r now (admits g es r)"
  using assms
proof (induction es arbitrary: r)
  case Nil
  then show ?case by (simp add: recentRequests_def)
next
  case (Cons e es)
  have same: "recentRequests (rl_step e r) now = recentRequests r now"
    by (simp add: recentRequests_def fun_eq_iff)
  have tail: "admits g (e # es) r = admits g [e] r @ admits g es (rl_step e r)"
    by (cases e) auto
  from Cons.prems have "ev_time e \<le> now" and rest: "\<forall>e\<in>set es. ev_time e \<le> now"
    by simp_all
  from Cons.IH [OF rest, of "rl_step e r"] timestamps_step_recent [OF \<open>ev_time e \<le> now\<close>, of r g]
  show ?case
    by (simp add: same tail recentRequests_def)
qed

lemma timestamps_step_subset:
  "set (timestamps (rl_step e r) g) \<subseteq> set (timestamps r g) \<union> {ev_time e}"
  by (cases e)
     (auto simp: isLimited_def cleanup_def timestamps_def recentRequests_def Let_def
        split: option.splits if_splits)

lemma timestamps_run_subset:
  "set (timestamps (rl_run es r) g) \<subseteq> set (timestamps r g) \<union> ev_time ` set es"
proof (induction es arbitrary: r)
  case Nil
  then show ?case by simp
next
  case (Cons e es)
  from Cons.IH [of "rl_step e r"] timestamps_step_subset [of e r g]
  show ?case by auto
qed

text \<open>
  C3. The bot lets a call through (the spec's \<open>admit\<close>) exactly when \<open>isLimited\<close>
  returns false. A call at clock reading \<open>now\<close> is let through if and only if fewer than
  \<open>maxRequests\<close> of the guild's recorded timestamps lie in the trailing window
  (\<open>now - ts < windowMs\<close>); a call that is let through stores the timestamps of the window
  followed by \<open>now\<close>, a refused call leaves the limiter as it was. Consequently, for any
  history of calls and sweeps whose clock readings are at most \<open>now\<close>: once at least
  \<open>maxRequests\<close> calls of the guild were let through inside the window that ends at \<open>now\<close>,
  the call at \<open>now\<close> is refused; and once the window has elapsed since every recorded
  timestamp and every event of the history, a call is let through again (for a positive cap).
\<close>

theorem rate_limiter_sliding_window:
  "(\<not> fst (isLimited now g r)
      \<longleftrightarrow> int (length (recentRequests r now (timestamps r g))) < maxRequests r)
   \<and> (\<not> fst (isLimited now g r) \<longrightarrow>
        timestamps (snd (isLimited now g r)) g = recentRequests r now (timestamps r g) @ [now])
   \<and> (fst (isLimited now g r) \<longrightarrow> snd (isLimited now g r) = r)
   \<and> ((\<forall>e\<in>set es. ev_time e \<le> now)
        \<and> maxRequests r \<le> int (length (recentRequests r now (admits g es r)))
        \<longrightarrow> fst (isLimited now g (rl_run es r)))
   \<and> ((\<forall>e\<in>set es. windowMs r \<le> later - ev_time e)
        \<and> (\<forall>t\<in>set (timestamps r g). windowMs r \<le> later - t)
        \<and> 0 < maxRequests r
        \<longrightarrow> \<not> fst (isLimited later g (rl_run es r)))
   \<and> maxRequests (RateLimiter_new None None) = 100
   \<and> windowMs (RateLimiter_new None None) = 60000"
proof (intro conjI impI)
  show "maxRequests (RateLimiter_new None None) = 100"
    by (simp add: RateLimiter_new_def)
next
  show "windowMs (RateLimiter_new None None) = 60000"
    by (simp add: RateLimiter_new_def)
next
  show "\<not> fst (isLimited now g r)
      \<longleftrightarrow> int (length (recentRequests r now (timestamps r g))) < maxRequests r"
    by (simp add: isLimited_def Let_def)
next
  assume "\<not> fst (isLimited now g r)"
  then show "timestamps (snd (isLimited now g r)) g
             = recentRequests r now (timestamps r g) @ [now]"
    by (simp add: isLimited_def Let_def timestamps_def recentRequests_def split: if_splits)
next
  assume "fst (isLimited now g r)"
  then show "snd (isLimited now g r) = r"
    by (simp add: isLimited_def Let_def split: if_splits)
next
  assume h: "(\<forall>e\<in>set es. ev_time e \<le> now)
        \<and> maxRequests r \<le> int (length (recentRequests r now (admits g es r)))"
  then have "recentRequests r now (timestamps (rl_run es r) g) =
         recentRequests r now (timestamps r g) @ recentRequests r now (admits g es r)"
    by (simp add: timestamps_run_recent)
  then have "length (recentRequests r now (admits g es r))
             \<le> length (recentRequests r now (timestamps (rl_run es r) g))"
    by simp
  moreover have "recentRequests (rl_run es r) now = recentRequests r now"
    by (simp add: recentRequests_def fun_eq_iff)
  ultimately show "fst (isLimited now g (rl_run es r))"
    using h by (simp add: isLimited_def Let_def)
next
  assume h: "(\<forall>e\<in>set es. windowMs r \<le> later - ev_time e)
        \<and> (\<forall>t\<in>set (timestamps r g). windowMs r \<le> later - t)
        \<and> 0 < maxRequests r"
  have "\<forall>t\<in>set (timestamps (rl_run es r) g). windowMs r \<le> later - t"
    using timestamps_run_subset [of es r g] h by auto
  then have "recentRequests (rl_run es r) later (timestamps (rl_run es r) g) = []"
    by (auto simp: recentRequests_def filter_empty_conv)
  then show "\<not> fst (isLimited later g (rl_run es r))"
    using h by (simp add: isLimited_def Let_def)
qed

text \<open>
  The theorem at a limiter with cap 2 and a window of 60 s: two calls at 0 ms and 10 ms are
  let through, the call at 20 ms is refused, and the call at 70 s is let through again.
\<close>

theorem rate_limiter_sliding_window_witness:
  "admits ''g1'' [Call ''g1'' 0, Call ''g1'' 10] (RateLimiter_new (Some 2) (Some 60000)) = [0, 10]
   \<and> fst (isLimited 20 ''g1'' (rl_run [Call ''g1'' 0, Call ''g1'' 10] (RateLimiter_new (Some 2) (Some 60000))))
   \<and> \<not> fst (isLimited 70000 ''g1''
            (rl_run [Call ''g1'' 0, Call ''g1'' 10] (RateLimiter_new (Some 2) (Some 60000))))
   \<and> snd (isLimited 20 ''g1'' (rl_run [Call ''g1'' 0, Call ''g1'' 10] (RateLimiter_new (Some 2) (Some 60000))))
       = rl_run [Call ''g1'' 0, Call ''g1'' 10] (RateLimiter_new (Some 2) (Some 60000))
   \<and> \<not> fst (isLimited 0 ''g1'' (RateLimiter_new (Some 2) (Some 60000)))
   \<and> timestamps (snd (isLimited 0 ''g1'' (RateLimiter_new (Some 2) (Some 60000)))) ''g1'' = [0]"
proof -
  let ?r = "RateLimiter_new (Some 2) (Some 60000)"
  let ?es = "[Call ''g1'' 0, Call ''g1'' 10]"
  have a: "admits ''g1'' ?es ?r = [0, 10]"
    by (simp add: RateLimiter_new_def isLimited_def Let_def timestamps_def recentRequests_def)
  have h1: "\<forall>e\<in>set ?es. ev_time e \<le> 20" by simp
  have h2: "maxRequests ?r \<le> int (length (recentRequests ?r 20 (admits ''g1'' ?es ?r)))"
    unfolding a by (simp add: RateLimiter_new_def recentRequests_def)
  have h3: "\<forall>e\<in>set ?es. windowMs ?r \<le> 70000 - ev_time e"
    by (simp add: RateLimiter_new_def)
  have h4: "\<forall>t\<in>set (timestamps ?r ''g1''). windowMs ?r \<le> 70000 - t"
    by (simp add: RateLimiter_new_def timestamps_def)
  have h5: "0 < maxRequests ?r" by (simp add: RateLimiter_new_def)
  have h6: "int (length (recentRequests ?r 0 (timestamps ?r ''g1''))) < maxRequests ?r"
    by (simp add: RateLimiter_new_def timestamps_def recentRequests_def)
  from rate_limiter_sliding_window [of 20 "''g1''" ?r ?es 70000] h1 h2 h3 h4 h5
  have "fst (isLimited 20 ''g1'' (rl_run ?es ?r))"
    and "\<not> fst (isLimited 70000 ''g1'' (rl_run ?es ?r))"
    by blast+
  moreover from this rate_limiter_sliding_window [of 20 "''g1''" "rl_run ?es ?r" "[]" 0]
  have "snd (isLimited 20 ''g1'' (rl_run ?es ?r)) = rl_run ?es ?r"
    by blast
  moreover from rate_limiter_sliding_window [of 0 "''g1''" ?r "[]" 0] h6
  have "\<not> fst (isLimited 0 ''g1'' ?r)"
    and "timestamps (snd (isLimited 0 ''g1'' ?r)) ''g1'' = recentRequests ?r 0 (timestamps ?r ''g1'') @ [0]"
    by blast+
  ultimately show ?thesis
    using a by (simp add: RateLimiter_new_def timestamps_def recentRequests_def)
qed


section \<open>Properties of the config cache\<close>








section \<open>Properties of the moderation hook\<close>

subsection \<open>What each step does to the state\<close>

lemma check_closed:
  "\<not> enabled_of opts \<or> clientRef s = None \<Longrightarrow> check opts c now s = s"
  by (auto simp: check_def)

lemma check_open:
  assumes "enabled_of opts" and "clientRef s \<noteq> None"
  shows "issued (check opts c now s) = Suc (issued s)"
    and "inflight (check opts c now s) = inflight s"
    and "sent (check opts c now s) = sent s"
    and "delivered (check opts c now s) = delivered s"
    and "next_rid (check opts c now s) = next_rid s"
    and "onCheck_calls (check opts c now s) = onCheck_calls s"
    and "onError_calls (check opts c now s) = onError_calls s"
    and "timers (check opts c now s) =
           filter (\<lambda>tm. Some (handle tm) \<noteq> timeoutRef s) (timers s)
           @ (if is_blank c then []
              else [\<lparr>handle = next_timer s, deadline = now + debounceMs_of opts,
                     issue = issued s, captured = c\<rparr>])"
    and "timeoutRef (check opts c now s) = (if is_blank c then timeoutRef s else Some (next_timer s))"
    and "next_timer (check opts c now s) = (if is_blank c then next_timer s else Suc (next_timer s))"
    and "result (check opts c now s) =
           (if is_blank c then safe_result else (result s)\<lparr>isChecking := True, error := None\<rparr>)"
  using assms
  by (auto simp: check_def Let_def abort_def clearTimeout_def setTimeout_def
      split: option.splits)

lemma clientRef_step [simp]: "clientRef (hook_step opts e s) = clientRef s"
  by (cases e)
     (auto simp: check_def Let_def abort_def clearTimeout_def setTimeout_def timer_fired_def
        settled_def catch_error_def unmount_def
        split: option.splits outcome.splits)

lemma clientRef_check [simp]: "clientRef (check opts c now s) = clientRef s"
  using clientRef_step [of opts "Check c now" s] by simp

lemma clientRef_run [simp]: "clientRef (hook_run opts es s) = clientRef s"
  by (induction es arbitrary: s) simp_all

lemma find_handle_Some:
  "find (\<lambda>tm. handle tm = h) ts = Some tm \<Longrightarrow> tm \<in> set ts \<and> handle tm = h"
  by (induction ts) (auto split: if_splits)

lemma find_rid_Some:
  "find (\<lambda>p. rid p = r) ps = Some p \<Longrightarrow> p \<in> set ps \<and> rid p = r"
  by (induction ps) (auto split: if_splits)

lemma timer_fired_cases:
  obtains (idle) "timer_fired opts h now s = s"
  | (thrown) tm where "tm \<in> set (timers s)" "handle tm = h" "deadline tm \<le> now"
      "clientRef s = None"
      "timers (timer_fired opts h now s) = filter (\<lambda>tm. handle tm \<noteq> h) (timers s)"
      "inflight (timer_fired opts h now s) = inflight s"
      "sent (timer_fired opts h now s) = sent s"
      "\<forall>x\<in>set (delivered (timer_fired opts h now s)). x \<in> set (delivered s) \<or> fst x = issue tm"
      "issued (timer_fired opts h now s) = issued s"
      "next_timer (timer_fired opts h now s) = next_timer s"
      "next_rid (timer_fired opts h now s) = next_rid s"
      "timeoutRef (timer_fired opts h now s) = timeoutRef s"
  | (sent) tm where "tm \<in> set (timers s)" "handle tm = h" "deadline tm \<le> now"
      "find (\<lambda>tm. handle tm = h) (timers s) = Some tm"
      "timers (timer_fired opts h now s) = filter (\<lambda>tm. handle tm \<noteq> h) (timers s)"
      "inflight (timer_fired opts h now s) =
         inflight s @ [\<lparr>rid = next_rid s, req_issue = issue tm,
                        request = checkRequest opts (captured tm)\<rparr>]"
      "sent (timer_fired opts h now s) = sent s @ [(issue tm, checkRequest opts (captured tm))]"
      "delivered (timer_fired opts h now s) = delivered s"
      "issued (timer_fired opts h now s) = issued s"
      "next_timer (timer_fired opts h now s) = next_timer s"
      "next_rid (timer_fired opts h now s) = Suc (next_rid s)"
      "timeoutRef (timer_fired opts h now s) = timeoutRef s"
proof (cases "find (\<lambda>tm. handle tm = h) (timers s)")
  case None
  then have "timer_fired opts h now s = s" by (simp add: timer_fired_def)
  then show ?thesis by (rule idle)
next
  case (Some tm)
  note mem = find_handle_Some [OF Some]
  show ?thesis
  proof (cases "now < deadline tm")
    case True
    with Some have "timer_fired opts h now s = s" by (simp add: timer_fired_def)
    then show ?thesis by (rule idle)
  next
    case False
    show ?thesis
    proof (cases "clientRef s = None")
      case True
      show ?thesis
        by (rule thrown [of tm])
           (use mem Some False True in
             \<open>auto simp: timer_fired_def Let_def catch_error_def\<close>)
    next
      case nonnull: False
      show ?thesis
        by (rule sent [of tm])
           (use mem Some False nonnull in \<open>auto simp: timer_fired_def Let_def\<close>)
    qed
  qed
qed

lemma settled_cases:
  obtains (idle) "settled opts r out s = s"
  | (answered) p where "p \<in> set (inflight s)" "rid p = r"
      "find (\<lambda>p. rid p = r) (inflight s) = Some p"
      "timers (settled opts r out s) = timers s"
      "inflight (settled opts r out s) = filter (\<lambda>p. rid p \<noteq> r) (inflight s)"
      "sent (settled opts r out s) = sent s"
      "\<forall>x\<in>set (delivered (settled opts r out s)). x \<in> set (delivered s) \<or> fst x = req_issue p"
      "issued (settled opts r out s) = issued s"
      "next_timer (settled opts r out s) = next_timer s"
      "next_rid (settled opts r out s) = next_rid s"
      "timeoutRef (settled opts r out s) = timeoutRef s"
proof (cases "find (\<lambda>p. rid p = r) (inflight s)")
  case None
  then have "settled opts r out s = s" by (simp add: settled_def)
  then show ?thesis by (rule idle)
next
  case (Some p)
  note mem = find_rid_Some [OF Some]
  show ?thesis
    by (rule answered [of p])
       (use mem Some in \<open>auto simp: settled_def Let_def catch_error_def split: outcome.splits\<close>)
qed

lemma unmount_fields:
  "timers (unmount s) = filter (\<lambda>tm. Some (handle tm) \<noteq> timeoutRef s) (timers s)"
  "inflight (unmount s) = inflight s" "sent (unmount s) = sent s"
  "delivered (unmount s) = delivered s" "issued (unmount s) = issued s"
  "next_timer (unmount s) = next_timer s" "next_rid (unmount s) = next_rid s"
  "timeoutRef (unmount s) = timeoutRef s"
  by (auto simp: unmount_def Let_def abort_def clearTimeout_def split: option.splits)

subsection \<open>The invariants\<close>

lemma hook_inv_init: "hook_inv (useModeration opts)"
  by (simp add: hook_inv_def useModeration_def)

lemma hook_inv_step:
  assumes "hook_inv s"
  shows "hook_inv (hook_step opts e s)"
proof (cases e)
  case (Check c t)
  show ?thesis
  proof (cases "enabled_of opts \<and> clientRef s \<noteq> None")
    case False
    with assms Check show ?thesis by (auto simp: check_closed)
  next
    case True
    then have en: "enabled_of opts" and cl: "clientRef s \<noteq> None" by auto
    from assms show ?thesis
      unfolding Check hook_step.simps hook_inv_def check_open [OF en cl]
      by (auto simp: less_Suc_eq)
  qed
next
  case (Fire h t)
  show ?thesis
    unfolding Fire hook_step.simps
  proof (cases opts h t s rule: timer_fired_cases)
    case idle
    with assms show "hook_inv (timer_fired opts h t s)" by simp
  next
    case (thrown tm)
    with assms show "hook_inv (timer_fired opts h t s)"
      unfolding hook_inv_def by auto
  next
    case (sent tm)
    with assms show "hook_inv (timer_fired opts h t s)"
      unfolding hook_inv_def by (auto simp: less_Suc_eq)
  qed
next
  case (Settle r out)
  show ?thesis
    unfolding Settle hook_step.simps
  proof (cases opts r out s rule: settled_cases)
    case idle
    with assms show "hook_inv (settled opts r out s)" by simp
  next
    case (answered p)
    with assms show "hook_inv (settled opts r out s)"
      unfolding hook_inv_def by auto
  qed
next
  case Unmount
  with assms show ?thesis
    by (simp add: hook_inv_def unmount_fields)
qed

lemma hook_inv_run: "hook_inv s \<Longrightarrow> hook_inv (hook_run opts es s)"
  by (induction es arbitrary: s) (simp_all add: hook_inv_step)

lemma retired_step:
  assumes "retired k s"
  shows "retired k (hook_step opts e s)"
proof (cases e)
  case (Check c t)
  show ?thesis
  proof (cases "enabled_of opts \<and> clientRef s \<noteq> None")
    case False
    with assms Check show ?thesis by (auto simp: check_closed)
  next
    case True
    then have en: "enabled_of opts" and cl: "clientRef s \<noteq> None" by auto
    from assms show ?thesis
      unfolding Check hook_step.simps retired_def check_open [OF en cl]
      by auto
  qed
next
  case (Fire h t)
  show ?thesis
    unfolding Fire hook_step.simps
  proof (cases opts h t s rule: timer_fired_cases)
    case idle
    with assms show "retired k (timer_fired opts h t s)" by simp
  next
    case (thrown tm)
    with assms show "retired k (timer_fired opts h t s)"
      unfolding retired_def by (auto; fastforce)
  next
    case (sent tm)
    with assms show "retired k (timer_fired opts h t s)"
      unfolding retired_def by (auto; fastforce)
  qed
next
  case (Settle r out)
  show ?thesis
    unfolding Settle hook_step.simps
  proof (cases opts r out s rule: settled_cases)
    case idle
    with assms show "retired k (settled opts r out s)" by simp
  next
    case (answered p)
    with assms show "retired k (settled opts r out s)"
      unfolding retired_def by (auto; fastforce)
  qed
next
  case Unmount
  with assms show ?thesis
    by (simp add: retired_def unmount_fields)
qed

lemma retired_run: "retired k s \<Longrightarrow> retired k (hook_run opts es s)"
  by (induction es arbitrary: s) (simp_all add: retired_step)

lemma retired_waiting: "retired k s \<Longrightarrow> waiting k dl s"
  by (simp add: retired_def waiting_def)

lemma waiting_check_retired:
  assumes "waiting k dl s" and "enabled_of opts" and "clientRef s \<noteq> None"
  shows "retired k (check opts c t s)"
  using assms(1)
  unfolding waiting_def retired_def check_open [OF assms(2,3)]
  by auto

lemma waiting_step:
  assumes "waiting k dl s" and "before dl e"
  shows "waiting k dl (hook_step opts e s)"
proof (cases e)
  case (Check c t)
  show ?thesis
  proof (cases "enabled_of opts \<and> clientRef s \<noteq> None")
    case False
    with assms Check show ?thesis by (auto simp: check_closed)
  next
    case True
    with assms(1) Check show ?thesis
      by (simp add: waiting_check_retired retired_waiting)
  qed
next
  case (Fire h t)
  with assms(2) have early: "t < dl" by simp
  show ?thesis
    unfolding Fire hook_step.simps
  proof (cases opts h t s rule: timer_fired_cases)
    case idle
    with assms show "waiting k dl (timer_fired opts h t s)" by simp
  next
    case (thrown tm)
    with assms(1) early have "issue tm \<noteq> k"
      unfolding waiting_def by (auto; fastforce)
    with thrown assms(1) show "waiting k dl (timer_fired opts h t s)"
      unfolding waiting_def by (auto; fastforce)
  next
    case (sent tm)
    with assms(1) early have "issue tm \<noteq> k"
      unfolding waiting_def by (auto; fastforce)
    with sent assms(1) show "waiting k dl (timer_fired opts h t s)"
      unfolding waiting_def by (auto; fastforce)
  qed
next
  case (Settle r out)
  show ?thesis
    unfolding Settle hook_step.simps
  proof (cases opts r out s rule: settled_cases)
    case idle
    with assms show "waiting k dl (settled opts r out s)" by simp
  next
    case (answered p)
    with assms(1) show "waiting k dl (settled opts r out s)"
      unfolding waiting_def by (auto; fastforce)
  qed
next
  case Unmount
  with assms(1) show ?thesis
    by (simp add: waiting_def unmount_fields)
qed

lemma waiting_run:
  "waiting k dl s \<Longrightarrow> \<forall>e\<in>set es. before dl e \<Longrightarrow> waiting k dl (hook_run opts es s)"
  by (induction es arbitrary: s) (simp_all add: waiting_step)

lemma check_starts_waiting:
  assumes "hook_inv s" and "enabled_of opts" and "clientRef s \<noteq> None"
  shows "waiting (issued s) (now + debounceMs_of opts) (check opts c now s)"
  using assms(1)
  unfolding waiting_def hook_inv_def check_open [OF assms(2,3)]
  by auto

lemma blank_check_retired:
  assumes "hook_inv s" and "enabled_of opts" and "clientRef s \<noteq> None" and "is_blank c"
  shows "retired (issued s) (check opts c now s)"
  using assms(1,4)
  unfolding retired_def hook_inv_def check_open [OF assms(2,3)]
  by auto

section \<open>Properties of the moderated textarea\<close>

lemma handleChange_length:
  "blockUnsafe_of props \<Longrightarrow> \<not> safe res \<Longrightarrow>
   length (internalValue (handleChange props res v s)) \<le> length (internalValue s)"
  by (simp add: handleChange_def)

lemma handleChanges_length:
  "blockUnsafe_of props \<Longrightarrow> \<not> safe res \<Longrightarrow>
   length (internalValue (handleChanges props res vs s)) \<le> length (internalValue s)"
proof (induction vs arbitrary: s)
  case Nil
  then show ?case by simp
next
  case (Cons v vs)
  have "length (internalValue (handleChanges props res vs (handleChange props res v s)))
        \<le> length (internalValue (handleChange props res v s))"
    using Cons by blast
  also have "\<dots> \<le> length (internalValue s)"
    using Cons.prems by (rule handleChange_length)
  finally show ?case by simp
qed

text \<open>
  C10. With \<open>blockUnsafe\<close> on and an unsafe moderation result, a change event whose new
  value is longer than the current one leaves the component as it was (the value is kept,
  \<open>onChange\<close> is not called); a change to a value of the same length or shorter is taken
  over and passed to \<open>onChange\<close>. Hence over any series of change events under an unsafe
  result the stored text never gets longer.
\<close>

theorem textarea_unsafe_never_grows:
  assumes "blockUnsafe_of props" and "\<not> safe res"
  shows "(length (internalValue s) < length newValue \<longrightarrow> handleChange props res newValue s = s)
       \<and> (length newValue \<le> length (internalValue s) \<longrightarrow>
            internalValue (handleChange props res newValue s) = newValue
            \<and> onChange_calls (handleChange props res newValue s) =
                (if onChange props
                 then onChange_calls s @ [(newValue, safe res, flagged res, action res)]
                 else onChange_calls s))
       \<and> length (internalValue (handleChanges props res vs s)) \<le> length (internalValue s)"
  using assms handleChanges_length [of props res vs s]
  by (simp add: handleChange_def)

text \<open>
  The theorem at the value \<open>ab\<close> under a blocking result: typing \<open>abc\<close> is rejected,
  deleting down to \<open>a\<close> is accepted.
\<close>

theorem textarea_unsafe_never_grows_witness:
  "handleChange \<lparr>blockUnsafe = Some True, onChange = True\<rparr>
     (safe_result\<lparr>safe := False, action := Block\<rparr>) (js ''abc'')
     \<lparr>internalValue = js ''ab'', onChange_calls = []\<rparr>
   = \<lparr>internalValue = js ''ab'', onChange_calls = []\<rparr>
   \<and> handleChange \<lparr>blockUnsafe = Some True, onChange = True\<rparr>
     (safe_result\<lparr>safe := False, action := Block\<rparr>) (js ''a'')
     \<lparr>internalValue = js ''ab'', onChange_calls = []\<rparr>
   = \<lparr>internalValue = js ''a'', onChange_calls = [(js ''a'', False, False, Block)]\<rparr>
   \<and> length (internalValue (handleChanges \<lparr>blockUnsafe = Some True, onChange = True\<rparr>
        (safe_result\<lparr>safe := False, action := Block\<rparr>) [js ''abc'', js ''a'', js ''xy'']
        \<lparr>internalValue = js ''ab'', onChange_calls = []\<rparr>)) \<le> 2"
proof -
  let ?p = "\<lparr>blockUnsafe = Some True, onChange = True\<rparr>"
  let ?r = "safe_result\<lparr>safe := False, action := Block\<rparr>"
  let ?s = "\<lparr>internalValue = js ''ab'', onChange_calls = []\<rparr>"
  have b: "blockUnsafe_of ?p" by (simp add: blockUnsafe_of_def)
  have u: "\<not> safe ?r" by simp
  have "length (internalValue ?s) < length (js ''abc'')" by (simp add: js_def)
  with textarea_unsafe_never_grows [OF b u, of ?s "js ''abc''" "[]"]
  have 1: "handleChange ?p ?r (js ''abc'') ?s = ?s" by blast
  have "length (js ''a'') \<le> length (internalValue ?s)" by (simp add: js_def)
  with textarea_unsafe_never_grows [OF b u, of ?s "js ''a''" "[]"]
  have "internalValue (handleChange ?p ?r (js ''a'') ?s) = js ''a''"
    and "onChange_calls (handleChange ?p ?r (js ''a'') ?s)
         = [(js ''a'', False, False, Block)]"
    by (simp_all add: safe_result_def)
  then have 2: "handleChange ?p ?r (js ''a'') ?s
        = \<lparr>internalValue = js ''a'', onChange_calls = [(js ''a'', False, False, Block)]\<rparr>"
    by (cases "handleChange ?p ?r (js ''a'') ?s") simp
  from textarea_unsafe_never_grows [OF b u, of ?s "[]" "[js ''abc'', js ''a'', js ''xy'']"]
  have 3: "length (internalValue (handleChanges ?p ?r [js ''abc'', js ''a'', js ''xy''] ?s)) \<le> 2"
    by (simp add: js_def)
  from 1 2 3 show ?thesis by blast
qed

section \<open>Properties of the video upload\<close>

lemma extractLoop_video_fields:
  "picture (fst (extractLoop n iv i video s frames)) = picture video
   \<and> seekResponse (fst (extractLoop n iv i video s frames)) = seekResponse video
   \<and> duration (fst (extractLoop n iv i video s frames)) = duration video"
proof (induction n iv i video s frames rule: extractLoop.induct)
  case (1 n interval i video s frames)
  show ?case
  proof (cases "i < n \<and> seekResponse video (real i * interval) = Seeked")
    case True
    with 1 show ?thesis
      by (subst (1 2 3) extractLoop.simps) (simp add: Let_def)
  next
    case False
    then show ?thesis
      by (subst (1 2 3) extractLoop.simps) (auto simp: Let_def)
  qed
qed

lemma extractLoop_events:
  "events (fst (extractLoop n iv i video s frames)) =
   events video @ seek_trace (seekResponse video) (map (\<lambda>j. real j * iv) [i..<n])"
proof (induction n iv i video s frames rule: extractLoop.induct)
  case (1 n interval i video s frames)
  show ?case
  proof (cases "i < n")
    case False
    then show ?thesis by (subst extractLoop.simps) simp
  next
    case lt: True
    then have upt: "[i..<n] = i # [Suc i..<n]" by (simp add: upt_conv_Cons)
    show ?thesis
    proof (cases "seekResponse video (real i * interval) = Seeked")
      case True
      with lt 1 show ?thesis
        by (subst extractLoop.simps) (simp add: Let_def upt)
    next
      case False
      with lt show ?thesis
        by (subst extractLoop.simps) (simp add: Let_def upt)
    qed
  qed
qed

lemma extractLoop_frames:
  "snd (snd (extractLoop n iv i video s frames)) =
   (if \<forall>j. i \<le> j \<and> j < n \<longrightarrow> seekResponse video (real j * iv) = Seeked
    then Some (frames @ map (\<lambda>j. picture video (real j * iv)) [i..<n]) else None)"
proof (induction n iv i video s frames rule: extractLoop.induct)
  case (1 n interval i video s frames)
  show ?case
  proof (cases "i < n")
    case False
    then show ?thesis by (subst extractLoop.simps) simp
  next
    case lt: True
    then have upt: "[i..<n] = i # [Suc i..<n]" by (simp add: upt_conv_Cons)
    show ?thesis
    proof (cases "seekResponse video (real i * interval) = Seeked")
      case True
      have "(\<forall>j. i \<le> j \<and> j < n \<longrightarrow> seekResponse video (real j * interval) = Seeked)
            = (\<forall>j. Suc i \<le> j \<and> j < n \<longrightarrow> seekResponse video (real j * interval) = Seeked)"
        using True by (metis Suc_leI le_neq_implies_less Suc_leD)
      with True lt 1 show ?thesis
        by (subst extractLoop.simps) (simp add: Let_def upt)
    next
      case False
      with lt have "\<not> (\<forall>j. i \<le> j \<and> j < n \<longrightarrow> seekResponse video (real j * interval) = Seeked)"
        by auto
      with False lt show ?thesis
        by (subst extractLoop.simps) (simp add: Let_def)
    qed
  qed
qed

lemma extractLoop_state:
  "thumbnail (fst (snd (extractLoop n iv i video s frames))) = thumbnail s
   \<and> hook (fst (snd (extractLoop n iv i video s frames))) = hook s
   \<and> uploadError (fst (snd (extractLoop n iv i video s frames))) = uploadError s
   \<and> onReject_calls (fst (snd (extractLoop n iv i video s frames))) = onReject_calls s"
proof (induction n iv i video s frames rule: extractLoop.induct)
  case (1 n interval i video s frames)
  show ?case
  proof (cases "i < n \<and> seekResponse video (real i * interval) = Seeked")
    case True
    with 1 show ?thesis
      by (subst (1 2 3 4) extractLoop.simps) (simp add: Let_def)
  next
    case False
    then show ?thesis
      by (subst (1 2 3 4) extractLoop.simps) (auto simp: Let_def)
  qed
qed

lemma sample_times_all:
  "(\<forall>j. 0 \<le> j \<and> j < n \<longrightarrow> resp (real j * (d / real n)) = Seeked)
   = (\<forall>t\<in>set (sample_times n d). resp t = Seeked)"
  by (auto simp: sample_times_def)

lemma extractFrames_result:
  assumes "extractFrames True props video s = (v', s', r)"
  shows "events v' = events video
           @ seek_trace (seekResponse video)
               (sample_times (extractFramesCount_of props) (duration video))"
    and "picture v' = picture video" and "seekResponse v' = seekResponse video"
    and "duration v' = duration video"
    and "thumbnail s' = thumbnail s" and "hook s' = hook s"
    and "uploadError s' = uploadError s" and "onReject_calls s' = onReject_calls s"
    and "r = (if \<forall>t\<in>set (sample_times (extractFramesCount_of props) (duration video)).
                   seekResponse video t = Seeked
              then Some (Inr (map (picture video)
                     (sample_times (extractFramesCount_of props) (duration video))))
              else None)"
proof -
  let ?n = "extractFramesCount_of props"
  let ?iv = "duration video / real ?n"
  let ?s1 = "s\<lparr>processingStage := ExtractingFramesForAnalysis\<rparr>"
  let ?L = "extractLoop ?n ?iv 0 video ?s1 []"
  obtain v2 s2 r2 where L: "?L = (v2, s2, r2)" by (cases ?L) auto
  have v: "v' = v2"
    using assms L by (auto simp: extractFrames_def Let_def split: option.splits)
  have r: "r = map_option Inr r2"
    using assms L by (auto simp: extractFrames_def Let_def split: option.splits)
  have s: "thumbnail s' = thumbnail s2 \<and> hook s' = hook s2 \<and> uploadError s' = uploadError s2
           \<and> onReject_calls s' = onReject_calls s2"
    using assms L by (auto simp: extractFrames_def Let_def split: option.splits)
  from extractLoop_events [of ?n ?iv 0 video ?s1 "[]"] L
  show "events v' = events video @ seek_trace (seekResponse video) (sample_times ?n (duration video))"
    by (simp add: v sample_times_def)
  from extractLoop_video_fields [of ?n ?iv 0 video ?s1 "[]"] L
  show "picture v' = picture video" "seekResponse v' = seekResponse video"
    "duration v' = duration video"
    by (simp_all add: v)
  from extractLoop_state [of ?n ?iv 0 video ?s1 "[]"] L s
  show "thumbnail s' = thumbnail s" "hook s' = hook s"
    "uploadError s' = uploadError s" "onReject_calls s' = onReject_calls s"
    by simp_all
  from extractLoop_frames [of ?n ?iv 0 video ?s1 "[]"] L
  have "r2 = (if \<forall>t\<in>set (sample_times ?n (duration video)). seekResponse video t = Seeked
              then Some (map (\<lambda>j. picture video (real j * ?iv)) [0..<?n]) else None)"
    by (simp add: sample_times_all [symmetric])
  then show "r = (if \<forall>t\<in>set (sample_times ?n (duration video)). seekResponse video t = Seeked
              then Some (Inr (map (picture video) (sample_times ?n (duration video))))
              else None)"
    by (simp add: r sample_times_def comp_def)
qed

lemma sequential_seek_trace: "sequential (seek_trace resp ts)"
  by (induction ts) auto

lemma seek_times_seek_trace:
  "\<forall>t\<in>set ts. resp t = Seeked \<Longrightarrow> seek_times (seek_trace resp ts) = ts"
  by (induction ts) auto

lemma seek_times_append: "seek_times (es @ fs) = seek_times es @ seek_times fs"
  by (induction es rule: seek_times.induct) auto

text \<open>The element's history after the metadata handler, for every course it can take.\<close>

lemma onloadedmetadata_events:
  "events (fst (onloadedmetadata ctx props f video now s)) =
   events video @
     (if duration video > maxDurationSeconds_of props \<or> \<not> ctx then []
      else if seekResponse video (min 1 (duration video * 0.1)) = Seeked
      then SeekIssued (min 1 (duration video * 0.1)) # FrameCaptured (min 1 (duration video * 0.1))
           # seek_trace (seekResponse video)
               (sample_times (extractFramesCount_of props) (duration video))
      else [SeekIssued (min 1 (duration video * 0.1))])"
proof (cases "duration video > maxDurationSeconds_of props \<or> \<not> ctx")
  case True
  then show ?thesis
    by (auto simp: onloadedmetadata_def generateThumbnail_def Let_def)
next
  case False
  then have ctx: ctx and ok: "\<not> duration video > maxDurationSeconds_of props" by auto
  let ?t0 = "min 1 (duration video * 0.1)"
  show ?thesis
  proof (cases "seekResponse video ?t0 = Seeked")
    case no: False
    then show ?thesis
      using ctx ok
      by (cases "seekResponse video ?t0")
         (auto simp: onloadedmetadata_def generateThumbnail_def Let_def)
  next
    case True
    let ?v1 = "video\<lparr>currentTime := ?t0,
                 events := events video @ [SeekIssued ?t0, FrameCaptured ?t0]\<rparr>"
    let ?s3 = "s\<lparr>st_duration := duration video, processingStage := GeneratingThumbnail,
                 thumbnail := Some (picture video ?t0)\<rparr>"
    have g: "generateThumbnail ctx video = (?v1, Some (Inr (picture video ?t0)))"
      using ctx True by (simp add: generateThumbnail_def Let_def)
    obtain v2 s4 r where E: "extractFrames True props ?v1 ?s3 = (v2, s4, r)"
      by (cases "extractFrames True props ?v1 ?s3") auto
    have "events (fst (onloadedmetadata ctx props f video now s)) = events v2"
      using ctx ok g E
      by (auto simp: onloadedmetadata_def Let_def split: option.splits sum.splits)
    with extractFrames_result(1) [OF E] True ctx ok show ?thesis
      by simp
  qed
qed

lemma sample_times_nth:
  "length (sample_times n d) = n \<and> (\<forall>i<n. sample_times n d ! i = real i * (d / real n))"
  by (simp add: sample_times_def)

lemma onloadedmetadata_too_long:
  "duration video > maxDurationSeconds_of props \<Longrightarrow>
   onloadedmetadata ctx props f video now s =
     (video, reject_file props f (DurationExceeds (duration video) (maxDurationSeconds_of props))
               (s\<lparr>st_duration := duration video\<rparr>))"
  by (simp add: onloadedmetadata_def Let_def)

text \<open>
  C6. \<open>extractFrames\<close> seeks to the times \<open>i * (d / n)\<close>, \<open>i = 0, \<dots>, n - 1\<close>, for
  \<open>d\<close> the duration and \<open>n\<close> the frame count, one after the other: its part of the
  element's history is \<open>seek_trace\<close> of these times, in which a seek is issued only after
  the frame of the one before has been captured. When every seek completes it returns the
  pictures at exactly these times. The whole history that the metadata handler leaves on a
  fresh element is sequential, and for a video longer than \<open>maxDurationSeconds\<close> the handler
  leaves the element untouched (no seek, no frame), does not call \<open>check\<close>, and reports the
  duration error. JavaScript numbers are taken as real numbers.
\<close>

theorem video_sampler_schedule:
  "length (sample_times n d) = n
   \<and> (\<forall>i<n. sample_times n d ! i = real i * (d / real n))
   \<and> events (fst (extractFrames True props video s))
       = events video @ seek_trace (seekResponse video)
           (sample_times (extractFramesCount_of props) (duration video))
   \<and> ((\<forall>t\<in>set (sample_times (extractFramesCount_of props) (duration video)).
          seekResponse video t = Seeked) \<longrightarrow>
        snd (snd (extractFrames True props video s))
          = Some (Inr (map (picture video)
              (sample_times (extractFramesCount_of props) (duration video))))
        \<and> seek_times (events (fst (extractFrames True props video s)))
          = seek_times (events video) @ sample_times (extractFramesCount_of props) (duration video))
   \<and> (events video = [] \<longrightarrow> sequential (events (fst (onloadedmetadata ctx props f video now s))))
   \<and> (duration video > maxDurationSeconds_of props \<longrightarrow>
        fst (onloadedmetadata ctx props f video now s) = video
        \<and> hook (snd (onloadedmetadata ctx props f video now s)) = hook s
        \<and> thumbnail (snd (onloadedmetadata ctx props f video now s)) = thumbnail s
        \<and> uploadError (snd (onloadedmetadata ctx props f video now s))
            = Some (DurationExceeds (duration video) (maxDurationSeconds_of props)))"
proof -
  let ?n = "extractFramesCount_of props"
  let ?ts = "sample_times ?n (duration video)"
  obtain v' s' r where E: "extractFrames True props video s = (v', s', r)"
    by (cases "extractFrames True props video s") auto
  have ev: "events (fst (extractFrames True props video s))
            = events video @ seek_trace (seekResponse video) ?ts"
    using extractFrames_result(1) [OF E] E by simp
  have fr: "snd (snd (extractFrames True props video s)) = Some (Inr (map (picture video) ?ts))"
    and st: "seek_times (events (fst (extractFrames True props video s)))
             = seek_times (events video) @ ?ts"
    if all: "\<forall>t\<in>set ?ts. seekResponse video t = Seeked"
  proof -
    show "snd (snd (extractFrames True props video s)) = Some (Inr (map (picture video) ?ts))"
      using extractFrames_result(9) [OF E] E all by simp
    show "seek_times (events (fst (extractFrames True props video s)))
             = seek_times (events video) @ ?ts"
      using all by (simp add: ev seek_times_append seek_times_seek_trace)
  qed
  have sq: "sequential (events (fst (onloadedmetadata ctx props f video now s)))"
    if "events video = []"
    using that by (simp add: onloadedmetadata_events sequential_seek_trace)
  have long: "fst (onloadedmetadata ctx props f video now s) = video
        \<and> hook (snd (onloadedmetadata ctx props f video now s)) = hook s
        \<and> thumbnail (snd (onloadedmetadata ctx props f video now s)) = thumbnail s
        \<and> uploadError (snd (onloadedmetadata ctx props f video now s))
            = Some (DurationExceeds (duration video) (maxDurationSeconds_of props))"
    if "duration video > maxDurationSeconds_of props"
    using that by (simp add: onloadedmetadata_too_long reject_file_def)
  from sample_times_nth [of n d] ev fr st sq long show ?thesis
    by blast
qed

text \<open>
  The theorem at a 60 s video with five frames, which is sought at 0, 12, 24, 36 and 48 s,
  and at a 301 s video under the default limit of 300 s, which is not sought at all.
\<close>

theorem video_sampler_schedule_witness:
  "seek_times (events (fst (extractFrames True (sample_props (Some 5)) (sample_video 60)
       (ModeratedVideoUpload (sample_props (Some 5)))))) = [0, 12, 24, 36, 48]
   \<and> sequential (events (fst (onloadedmetadata True (sample_props (Some 5)) sample_file
       (sample_video 60) 0 (ModeratedVideoUpload (sample_props (Some 5))))))
   \<and> fst (onloadedmetadata True (sample_props (Some 5)) sample_file
       (sample_video 301) 0 (ModeratedVideoUpload (sample_props (Some 5)))) = sample_video 301
   \<and> events (sample_video 301) = []"
proof -
  let ?p = "sample_props (Some 5)"
  let ?s = "ModeratedVideoUpload ?p"
  have n: "extractFramesCount_of ?p = 5"
    by (simp add: extractFramesCount_of_def sample_props_def)
  have ts: "sample_times 5 60 = [0, 12, 24, 36, 48]"
    by (simp add: sample_times_def upt_rec)
  have all: "\<forall>t\<in>set (sample_times (extractFramesCount_of ?p) (duration (sample_video 60))).
               seekResponse (sample_video 60) t = Seeked"
    by (simp add: sample_video_def always_seeked_def)
  have e: "events (sample_video 60) = []" "events (sample_video 301) = []"
    by (simp_all add: sample_video_def)
  have long: "duration (sample_video 301) > maxDurationSeconds_of ?p"
    by (simp add: sample_video_def maxDurationSeconds_of_def sample_props_def)
  from video_sampler_schedule [where props = ?p and video = "sample_video 60" and s = ?s] all
  have 1: "seek_times (events (fst (extractFrames True ?p (sample_video 60) ?s)))
           = [0, 12, 24, 36, 48]"
    by (simp add: e n ts sample_video_def)
  from video_sampler_schedule [where props = ?p and video = "sample_video 60" and s = ?s
      and ctx = True and f = sample_file and now = 0] e
  have 2: "sequential (events (fst (onloadedmetadata True ?p sample_file (sample_video 60) 0 ?s)))"
    by blast
  from video_sampler_schedule [where props = ?p and video = "sample_video 301" and s = ?s
      and ctx = True and f = sample_file and now = 0] long
  have 3: "fst (onloadedmetadata True ?p sample_file (sample_video 301) 0 ?s) = sample_video 301"
    by blast
  from 1 2 3 e show ?thesis by blast
qed

text \<open>
  C7 as stated, with a default frame count of 5, fails: when the caller leaves
  \<open>extractFramesCount\<close> out, the component takes 3.
\<close>

theorem frame_count_default_counterexample:
  "extractFramesCount_of (sample_props None) \<noteq> 5"
  by (simp add: extractFramesCount_of_def sample_props_def)

text \<open>
  C7, amended. The frame count is the prop \<open>extractFramesCount\<close>, and it is 3 when the
  caller does not supply it: on a video whose sample seeks all complete, \<open>extractFrames\<close>
  returns as many frames as the prop says, and three when it is left out.
\<close>

theorem frame_count_default_three:
  assumes "\<forall>t\<in>set (sample_times (extractFramesCount_of props) (duration video)).
             seekResponse video t = Seeked"
  shows "\<exists>frames. snd (snd (extractFrames True props video s)) = Some (Inr frames)
           \<and> length frames = (case extractFramesCount props of None \<Rightarrow> 3 | Some n \<Rightarrow> n)"
proof -
  obtain v' s' r where E: "extractFrames True props video s = (v', s', r)"
    by (cases "extractFrames True props video s") auto
  from extractFrames_result(9) [OF E] assms E
  have "snd (snd (extractFrames True props video s))
        = Some (Inr (map (picture video)
            (sample_times (extractFramesCount_of props) (duration video))))"
    by simp
  moreover have "length (map (picture video)
            (sample_times (extractFramesCount_of props) (duration video)))
        = (case extractFramesCount props of None \<Rightarrow> 3 | Some n \<Rightarrow> n)"
    by (simp add: sample_times_def extractFramesCount_of_def)
  ultimately show ?thesis by blast
qed

text \<open>The amended claim at a 60 s video: three frames by default, five when asked for.\<close>

theorem frame_count_default_three_witness:
  "(\<exists>frames. snd (snd (extractFrames True (sample_props None) (sample_video 60)
        (ModeratedVideoUpload (sample_props None)))) = Some (Inr frames) \<and> length frames = 3)
   \<and> (\<exists>frames. snd (snd (extractFrames True (sample_props (Some 5)) (sample_video 60)
        (ModeratedVideoUpload (sample_props (Some 5))))) = Some (Inr frames) \<and> length frames = 5)"
proof -
  have all: "\<forall>t\<in>set (sample_times (extractFramesCount_of p) (duration (sample_video 60))).
               seekResponse (sample_video 60) t = Seeked" for p
    by (simp add: sample_video_def always_seeked_def)
  from frame_count_default_three [OF all [of "sample_props None"],
      of "ModeratedVideoUpload (sample_props None)"]
    frame_count_default_three [OF all [of "sample_props (Some 5)"],
      of "ModeratedVideoUpload (sample_props (Some 5))"]
  show ?thesis
    by (simp add: sample_props_def)
qed

lemma generateThumbnail_seeked:
  "seekResponse video (min 1 (duration video * 0.1)) = Seeked \<Longrightarrow>
   generateThumbnail True video =
     (video\<lparr>currentTime := min 1 (duration video * 0.1),
            events := events video @ [SeekIssued (min 1 (duration video * 0.1)),
                                     FrameCaptured (min 1 (duration video * 0.1))]\<rparr>,
      Some (Inr (picture video (min 1 (duration video * 0.1)))))"
  by (simp add: generateThumbnail_def Let_def)

text \<open>
  C8 on the code. The comment in \<open>generateThumbnail\<close> says \<open>Seek to 10% of video
  duration\<close>, and for a 5 s video the seek goes to 0.5 s; but the seek time is
  \<open>Math.min(1, video.duration * 0.1)\<close>, so for every video longer than 10 s it is 1 s:
  a 60 s video is sought at 1 s where 10 % is 6 s, and a 300 s video at 1 s where 10 % is
  30 s.
\<close>

theorem thumbnail_seek_capped_at_one_second:
  "seek_times (events (fst (generateThumbnail True (sample_video 5)))) = [0.5]
   \<and> duration (sample_video 5) * 0.1 = 0.5
   \<and> seek_times (events (fst (generateThumbnail True (sample_video 60)))) = [1]
   \<and> duration (sample_video 60) * 0.1 = 6
   \<and> seek_times (events (fst (generateThumbnail True (sample_video 300)))) = [1]
   \<and> duration (sample_video 300) * 0.1 = 30"
  by (simp add: generateThumbnail_def Let_def sample_video_def always_seeked_def)

subsection \<open>Blank content\<close>

lemma trim_blank: "trim str = [] \<longleftrightarrow> (\<forall>c\<in>set str. isWhiteSpace c)"
proof
  assume "trim str = []"
  then have "dropWhile isWhiteSpace (rev (dropWhile isWhiteSpace str)) = []"
    by (simp add: trim_def)
  then have "\<forall>c\<in>set (dropWhile isWhiteSpace str). isWhiteSpace c"
    by (simp add: dropWhile_eq_Nil_conv)
  then have "dropWhile isWhiteSpace str = []"
    by (metis hd_dropWhile hd_in_set)
  then show "\<forall>c\<in>set str. isWhiteSpace c"
    by (simp add: dropWhile_eq_Nil_conv)
next
  assume "\<forall>c\<in>set str. isWhiteSpace c"
  then have d: "dropWhile isWhiteSpace str = []"
    by (simp add: dropWhile_eq_Nil_conv)
  show "trim str = []"
    unfolding trim_def d by simp
qed

lemma useModeration_client: "apiKey opts \<noteq> [] \<Longrightarrow> clientRef (useModeration opts) \<noteq> None"
  by (simp add: useModeration_def)

lemma retired_not_sent:
  "retired k s \<Longrightarrow> k \<notin> fst ` set (sent s) \<and> k \<notin> fst ` set (delivered s)"
  by (auto simp: retired_def)

text \<open>
  C5 as stated fails for blank text that is passed as a request object: the test
  \<open>typeof content === 'string'\<close> sends it down the ordinary path. For the text of a single
  space, \<open>check\<close> leaves the result in the checking state and sets a timer, and when the
  timer has fired the request has been sent.
\<close>

theorem blank_request_counterexample:
  "trim (content blank_text_request) = []
   \<and> req_contentType blank_text_request = Text
   \<and> result (check sample_options (Req blank_text_request) 0 (useModeration sample_options))
       = safe_result\<lparr>isChecking := True\<rparr>
   \<and> map captured (timers (check sample_options (Req blank_text_request) 0
         (useModeration sample_options))) = [Req blank_text_request]
   \<and> sent (hook_run sample_options [Check (Req blank_text_request) 0, Fire 1 500]
         (useModeration sample_options)) = [(0, blank_text_request)]"
  by (simp add: check_def useModeration_def sample_options_def enabled_of_def debounceMs_of_def
      js_def Let_def setTimeout_def timer_fired_def trim_def isWhiteSpace_def
      blank_text_request_def safe_result_def)

text \<open>
  C5, amended: the claim for content passed as a plain string. Take a hook that is enabled
  and has its client (a non-empty api key), after any history, and a string made of white
  space only (the empty string included). \<open>check\<close> then sets the result to
  \<open>{safe: true, flagged: false, action: allow, \<dots>}\<close> at once, sends nothing, sets no
  timer, and whatever happens afterwards no request of this call is ever sent. The hook has
  no rate limiter, so none is called.
\<close>

theorem blank_content_short_circuit:
  assumes "\<forall>c\<in>set str. isWhiteSpace c"
    and "enabled_of opts" and "apiKey opts \<noteq> []"
    and "s = hook_run opts pre (useModeration opts)"
  shows "result (check opts (Str str) now s) = safe_result
       \<and> safe (result (check opts (Str str) now s))
       \<and> action (result (check opts (Str str) now s)) = Allow
       \<and> sent (check opts (Str str) now s) = sent s
       \<and> inflight (check opts (Str str) now s) = inflight s
       \<and> set (timers (check opts (Str str) now s)) \<subseteq> set (timers s)
       \<and> (\<forall>es. issued s \<notin> fst ` set (sent (hook_run opts es (check opts (Str str) now s))))"
proof -
  have blank: "is_blank (Str str)"
    using assms(1) by (simp add: trim_blank)
  have cl: "clientRef s \<noteq> None"
    using assms(3,4) by (simp add: useModeration_client)
  have inv: "hook_inv s"
    using assms(4) by (simp add: hook_inv_run hook_inv_init)
  note opn = check_open [OF assms(2) cl, of "Str str" now]
  have res: "result (check opts (Str str) now s) = safe_result"
    using blank by (simp add: opn)
  have "retired (issued s) (check opts (Str str) now s)"
    using inv assms(2) cl blank by (rule blank_check_retired)
  then have never: "\<forall>es. issued s \<notin> fst ` set (sent (hook_run opts es (check opts (Str str) now s)))"
    using retired_not_sent retired_run by blast
  have tm: "set (timers (check opts (Str str) now s)) \<subseteq> set (timers s)"
    using blank by (auto simp: opn)
  show ?thesis
    using res never tm by (simp add: opn safe_result_def)
qed

text \<open>
  The theorem for the string of a space, a tab and a no-break space, checked while an
  earlier call for \<open>hi\<close> is still in its delay: the result is the safe one, nothing was
  sent, and the timer of the earlier call is gone.
\<close>

theorem blank_content_short_circuit_witness:
  "result (check \<lparr>apiKey = js ''key'', policyId = js ''p'', debounceMs = None, enabled = None,
                  onCheck = True, onError = True\<rparr> (Str [0x20, 0x09, 0xA0]) 100
       (hook_run \<lparr>apiKey = js ''key'', policyId = js ''p'', debounceMs = None, enabled = None,
                  onCheck = True, onError = True\<rparr> [Check (Str (js ''hi'')) 0]
          (useModeration \<lparr>apiKey = js ''key'', policyId = js ''p'', debounceMs = None,
                  enabled = None, onCheck = True, onError = True\<rparr>))) = safe_result
   \<and> sent (hook_run \<lparr>apiKey = js ''key'', policyId = js ''p'', debounceMs = None, enabled = None,
                  onCheck = True, onError = True\<rparr> [Fire 1 600, Fire 2 600]
       (check \<lparr>apiKey = js ''key'', policyId = js ''p'', debounceMs = None, enabled = None,
                  onCheck = True, onError = True\<rparr> (Str [0x20, 0x09, 0xA0]) 100
         (hook_run \<lparr>apiKey = js ''key'', policyId = js ''p'', debounceMs = None, enabled = None,
                  onCheck = True, onError = True\<rparr> [Check (Str (js ''hi'')) 0]
            (useModeration \<lparr>apiKey = js ''key'', policyId = js ''p'', debounceMs = None,
                  enabled = None, onCheck = True, onError = True\<rparr>)))) = []"
proof -
  let ?o = "\<lparr>apiKey = js ''key'', policyId = js ''p'', debounceMs = None, enabled = None,
            onCheck = True, onError = True\<rparr>"
  let ?s = "hook_run ?o [Check (Str (js ''hi'')) 0] (useModeration ?o)"
  let ?s' = "check ?o (Str [0x20, 0x09, 0xA0]) 100 ?s"
  have a: "\<forall>c\<in>set [0x20, 0x09, 0xA0 :: 16 word]. isWhiteSpace c"
    by (simp add: isWhiteSpace_def)
  have b: "enabled_of ?o" by (simp add: enabled_of_def)
  have c: "apiKey ?o \<noteq> []" by (simp add: js_def)
  from blank_content_short_circuit [OF a b c refl, where pre = "[Check (Str (js ''hi'')) 0]" and now = 100]
  have r: "result ?s' = safe_result"
    and st: "sent ?s' = sent ?s"
    and tm: "set (timers ?s') \<subseteq> set (timers ?s)"
    and nv: "\<forall>es. issued ?s \<notin> fst ` set (sent (hook_run ?o es ?s'))"
    by blast+
  have s0: "sent ?s = []" "issued ?s = 1"
    by (simp_all add: check_def useModeration_def enabled_of_def js_def Let_def setTimeout_def
        trim_def isWhiteSpace_def)
  have "sent (hook_run ?o [Fire 1 600, Fire 2 600] ?s') = []"
    using st tm s0
    by (simp add: check_def useModeration_def enabled_of_def js_def Let_def setTimeout_def
        clearTimeout_def trim_def isWhiteSpace_def timer_fired_def debounceMs_of_def)
  with r show ?thesis by simp
qed

subsection \<open>Debounce\<close>

lemma find_fresh:
  "\<forall>x\<in>set xs. \<not> P x \<Longrightarrow> P y \<Longrightarrow> find P (xs @ [y]) = Some y"
  by (induction xs) auto

lemma timer_fired_sends:
  assumes "find (\<lambda>tm. handle tm = h) (timers s) = Some tm"
    and "deadline tm \<le> now" and "clientRef s \<noteq> None"
  shows "sent (timer_fired opts h now s) = sent s @ [(issue tm, checkRequest opts (captured tm))]"
    and "inflight (timer_fired opts h now s) =
           inflight s @ [\<lparr>rid = next_rid s, req_issue = issue tm,
                          request = checkRequest opts (captured tm)\<rparr>]"
    and "delivered (timer_fired opts h now s) = delivered s"
    and "onCheck_calls (timer_fired opts h now s) = onCheck_calls s"
    and "onError_calls (timer_fired opts h now s) = onError_calls s"
    and "result (timer_fired opts h now s) = result s"
  using assms by (auto simp: timer_fired_def Let_def)

text \<open>An outcome that the \<open>catch\<close> block drops: an error named \<open>AbortError\<close>.\<close>

lemma settled_delivers:
  assumes "find (\<lambda>p. rid p = r) (inflight s) = Some p"
    and "\<forall>err. out = Rejected err \<longrightarrow> err_name err \<noteq> js ''AbortError''"
  shows "delivered (settled opts r out s) = delivered s @ [(req_issue p, out)]"
    and "sent (settled opts r out s) = sent s"
    and "onCheck_calls (settled opts r out s) =
           (case out of Resolved response \<Rightarrow>
                          if onCheck opts then onCheck_calls s @ [response] else onCheck_calls s
                      | Rejected err \<Rightarrow> onCheck_calls s)"
    and "onError_calls (settled opts r out s) =
           (case out of Resolved response \<Rightarrow> onError_calls s
                      | Rejected err \<Rightarrow>
                          if onError opts then onError_calls s @ [err] else onError_calls s)"
    and "result (settled opts r out s) =
           (case out of
              Resolved response \<Rightarrow>
                \<lparr>safe = resp_safe response, flagged = resp_flagged response,
                 action = resp_action response,
                 categories = (case resp_categories response of None \<Rightarrow> [] | Some cs \<Rightarrow> cs),
                 isChecking = False, error = None\<rparr>
            | Rejected err \<Rightarrow>
                (result s)\<lparr>isChecking := False,
                   error := Some (if message err = [] then js ''Failed to check content''
                                  else message err)\<rparr>)"
  using assms by (auto simp: settled_def Let_def catch_error_def split: outcome.splits)

text \<open>
  A non-blank \<open>check\<close> followed by its timer firing and its request settling: exactly the
  request of that call is sent and exactly its outcome is delivered.
\<close>

lemma check_fire_settle:
  assumes inv: "hook_inv u" and en: "enabled_of opts" and cl: "clientRef u \<noteq> None"
    and nb: "\<not> is_blank c" and late: "now + debounceMs_of opts \<le> t"
    and ok: "\<forall>err. out = Rejected err \<longrightarrow> err_name err \<noteq> js ''AbortError''"
  shows "timeoutRef (check opts c now u) = Some (next_timer u)"
    and "onCheck_calls (hook_run opts [Fire (next_timer u) t, Settle (next_rid u) out] (check opts c now u))
         = (case out of Resolved response \<Rightarrow>
                          if onCheck opts then onCheck_calls u @ [response] else onCheck_calls u
                      | Rejected err \<Rightarrow> onCheck_calls u)"
    and "onError_calls (hook_run opts [Fire (next_timer u) t, Settle (next_rid u) out] (check opts c now u))
         = (case out of Resolved response \<Rightarrow> onError_calls u
                      | Rejected err \<Rightarrow>
                          if onError opts then onError_calls u @ [err] else onError_calls u)"
    and "sent (hook_run opts [Fire (next_timer u) t, Settle (next_rid u) out] (check opts c now u))
         = sent u @ [(issued u, checkRequest opts c)]"
    and "delivered (hook_run opts [Fire (next_timer u) t, Settle (next_rid u) out] (check opts c now u))
         = delivered u @ [(issued u, out)]"
    and "result (hook_run opts [Fire (next_timer u) t, Settle (next_rid u) out] (check opts c now u))
         = (case out of
              Resolved response \<Rightarrow>
                \<lparr>safe = resp_safe response, flagged = resp_flagged response,
                 action = resp_action response,
                 categories = (case resp_categories response of None \<Rightarrow> [] | Some cs \<Rightarrow> cs),
                 isChecking = False, error = None\<rparr>
            | Rejected err \<Rightarrow>
                (result u)\<lparr>isChecking := False,
                   error := Some (if message err = [] then js ''Failed to check content''
                                  else message err)\<rparr>)"
proof -
  let ?c = "check opts c now u"
  let ?tm = "\<lparr>handle = next_timer u, deadline = now + debounceMs_of opts, issue = issued u,
             captured = c\<rparr>"
  note opn = check_open [OF en cl, of c now]
  show "timeoutRef ?c = Some (next_timer u)"
    using nb by (simp add: opn)
  have old: "\<forall>x\<in>set (filter (\<lambda>tm. Some (handle tm) \<noteq> timeoutRef u) (timers u)).
               \<not> handle x = next_timer u"
    using inv by (auto simp: hook_inv_def)
  have f: "find (\<lambda>tm. handle tm = next_timer u) (timers ?c) = Some ?tm"
    using nb find_fresh [OF old, of ?tm] by (simp add: opn)
  have cl': "clientRef ?c \<noteq> None"
    using cl clientRef_step [of opts "Check c now" u] by simp
  have dl: "deadline ?tm \<le> t" using late by simp
  note fired = timer_fired_sends [OF f dl cl', of opts, simplified]
  let ?f = "timer_fired opts (next_timer u) t ?c"
  let ?p = "\<lparr>rid = next_rid u, req_issue = issued u, request = checkRequest opts c\<rparr>"
  have oldr: "\<forall>x\<in>set (inflight u). \<not> rid x = next_rid u"
    using inv by (auto simp: hook_inv_def)
  have g: "find (\<lambda>p. rid p = next_rid u) (inflight ?f) = Some ?p"
    using find_fresh [OF oldr, of ?p] by (simp add: fired opn)
  note answ = settled_delivers [OF g ok, of opts]
  show "onCheck_calls (hook_run opts [Fire (next_timer u) t, Settle (next_rid u) out] ?c)
         = (case out of Resolved response \<Rightarrow>
                          if onCheck opts then onCheck_calls u @ [response] else onCheck_calls u
                      | Rejected err \<Rightarrow> onCheck_calls u)"
    by (simp add: answ fired opn split: outcome.splits)
  show "onError_calls (hook_run opts [Fire (next_timer u) t, Settle (next_rid u) out] ?c)
         = (case out of Resolved response \<Rightarrow> onError_calls u
                      | Rejected err \<Rightarrow>
                          if onError opts then onError_calls u @ [err] else onError_calls u)"
    by (simp add: answ fired opn split: outcome.splits)
  show "sent (hook_run opts [Fire (next_timer u) t, Settle (next_rid u) out] ?c)
         = sent u @ [(issued u, checkRequest opts c)]"
    by (simp add: answ fired opn)
  show "delivered (hook_run opts [Fire (next_timer u) t, Settle (next_rid u) out] ?c)
         = delivered u @ [(issued u, out)]"
    by (simp add: answ fired opn)
  show "result (hook_run opts [Fire (next_timer u) t, Settle (next_rid u) out] ?c)
         = (case out of
              Resolved response \<Rightarrow>
                \<lparr>safe = resp_safe response, flagged = resp_flagged response,
                 action = resp_action response,
                 categories = (case resp_categories response of None \<Rightarrow> [] | Some cs \<Rightarrow> cs),
                 isChecking = False, error = None\<rparr>
            | Rejected err \<Rightarrow>
                (result u)\<lparr>isChecking := False,
                   error := Some (if message err = [] then js ''Failed to check content''
                                  else message err)\<rparr>)"
    using nb by (simp add: answ fired opn split: outcome.splits)
qed

text \<open>
  C2. Take a hook that is enabled and has its client, after any history. Call \<open>A\<close> is made
  at \<open>tA\<close> and call \<open>B\<close> at \<open>tB\<close>, before the delay of \<open>A\<close> has elapsed, so that every
  event in between happens before \<open>tA + debounceMs\<close> too. Then
  \<^item> whatever happens afterwards, no request of call \<open>A\<close> is ever sent and no outcome of it
    is ever delivered;
  \<^item> if \<open>B\<close> is a blank string, the result is the safe one at once and no request of \<open>B\<close>
    is ever sent either;
  \<^item> otherwise, once the timer of \<open>B\<close> fires after its delay and its request settles
    (with a response, or with an error other than an abort), exactly the request built from
    \<open>B\<close> has been sent, exactly its outcome has been delivered, and among the deliveries
    those of \<open>A\<close> and \<open>B\<close> are that one outcome. The caller receives it: the result
    state holds the fields of the response of \<open>B\<close> (or the error message of its failure),
    and exactly one callback call has been added, \<open>onCheck\<close> with that response (or
    \<open>onError\<close> with that error), where the callback was supplied.
\<close>

theorem debounce_latest_call_wins:
  assumes en: "enabled_of opts" and key: "apiKey opts \<noteq> []"
    and s: "s = hook_run opts pre (useModeration opts)"
    and mid: "\<forall>e\<in>set mid. before (tA + debounceMs_of opts) e"
    and tB: "tB < tA + debounceMs_of opts"
    and u: "u = hook_run opts (Check A tA # mid) s"
  shows "(\<forall>es. issued s \<notin> fst ` set (sent (hook_run opts es (check opts B tB u)))
             \<and> issued s \<notin> fst ` set (delivered (hook_run opts es (check opts B tB u))))
       \<and> (is_blank B \<longrightarrow>
            result (check opts B tB u) = safe_result
            \<and> (\<forall>es. issued u \<notin> fst ` set (sent (hook_run opts es (check opts B tB u)))))
       \<and> (\<not> is_blank B \<and> tB + debounceMs_of opts \<le> t
           \<and> (\<forall>err. out = Rejected err \<longrightarrow> err_name err \<noteq> js ''AbortError'') \<longrightarrow>
            timeoutRef (check opts B tB u) = Some (next_timer u)
            \<and> sent (hook_run opts [Fire (next_timer u) t, Settle (next_rid u) out]
                      (check opts B tB u))
                = sent u @ [(issued u, checkRequest opts B)]
            \<and> delivered (hook_run opts [Fire (next_timer u) t, Settle (next_rid u) out]
                      (check opts B tB u))
                = delivered u @ [(issued u, out)]
            \<and> filter (\<lambda>x. fst x = issued s \<or> fst x = issued u)
                 (delivered (hook_run opts [Fire (next_timer u) t, Settle (next_rid u) out]
                      (check opts B tB u)))
                = [(issued u, out)]
            \<and> result (hook_run opts [Fire (next_timer u) t, Settle (next_rid u) out]
                      (check opts B tB u))
                = (case out of
                     Resolved response \<Rightarrow>
                       \<lparr>safe = resp_safe response, flagged = resp_flagged response,
                        action = resp_action response,
                        categories = (case resp_categories response of
                                        None \<Rightarrow> [] | Some cs \<Rightarrow> cs),
                        isChecking = False, error = None\<rparr>
                   | Rejected err \<Rightarrow>
                       (result u)\<lparr>isChecking := False,
                          error := Some (if message err = [] then js ''Failed to check content''
                                         else message err)\<rparr>)
            \<and> onCheck_calls (hook_run opts [Fire (next_timer u) t, Settle (next_rid u) out]
                      (check opts B tB u))
                = (case out of
                     Resolved response \<Rightarrow>
                       if onCheck opts then onCheck_calls u @ [response] else onCheck_calls u
                   | Rejected err \<Rightarrow> onCheck_calls u)
            \<and> onError_calls (hook_run opts [Fire (next_timer u) t, Settle (next_rid u) out]
                      (check opts B tB u))
                = (case out of
                     Resolved response \<Rightarrow> onError_calls u
                   | Rejected err \<Rightarrow>
                       if onError opts then onError_calls u @ [err] else onError_calls u))"
proof -
  have cls: "clientRef s \<noteq> None"
    using key s by (simp add: useModeration_client)
  have invs: "hook_inv s"
    using s by (simp add: hook_inv_run hook_inv_init)
  have u': "u = hook_run opts mid (check opts A tA s)"
    using u by simp
  have clu: "clientRef u \<noteq> None"
    using cls u by simp
  have invu: "hook_inv u"
    unfolding u by (rule hook_inv_run [OF invs])
  have "waiting (issued s) (tA + debounceMs_of opts) (check opts A tA s)"
    using invs en cls by (rule check_starts_waiting)
  then have wu: "waiting (issued s) (tA + debounceMs_of opts) u"
    unfolding u' using mid by (rule waiting_run)
  then have "retired (issued s) (check opts B tB u)"
    using en clu by (rule waiting_check_retired)
  then have A: "\<forall>es. issued s \<notin> fst ` set (sent (hook_run opts es (check opts B tB u)))
             \<and> issued s \<notin> fst ` set (delivered (hook_run opts es (check opts B tB u)))"
    using retired_not_sent retired_run by blast
  have Bblank: "result (check opts B tB u) = safe_result
            \<and> (\<forall>es. issued u \<notin> fst ` set (sent (hook_run opts es (check opts B tB u))))"
    if blank: "is_blank B"
  proof -
    have "retired (issued u) (check opts B tB u)"
      using invu en clu blank by (rule blank_check_retired)
    then have "\<forall>es. issued u \<notin> fst ` set (sent (hook_run opts es (check opts B tB u)))"
      using retired_not_sent retired_run by blast
    then show ?thesis
      using blank by (simp add: check_open [OF en clu])
  qed
  have Bfull: "timeoutRef (check opts B tB u) = Some (next_timer u)
            \<and> sent (hook_run opts [Fire (next_timer u) t, Settle (next_rid u) out]
                      (check opts B tB u))
                = sent u @ [(issued u, checkRequest opts B)]
            \<and> delivered (hook_run opts [Fire (next_timer u) t, Settle (next_rid u) out]
                      (check opts B tB u))
                = delivered u @ [(issued u, out)]
            \<and> filter (\<lambda>x. fst x = issued s \<or> fst x = issued u)
                 (delivered (hook_run opts [Fire (next_timer u) t, Settle (next_rid u) out]
                      (check opts B tB u)))
                = [(issued u, out)]
            \<and> result (hook_run opts [Fire (next_timer u) t, Settle (next_rid u) out]
                      (check opts B tB u))
                = (case out of
                     Resolved response \<Rightarrow>
                       \<lparr>safe = resp_safe response, flagged = resp_flagged response,
                        action = resp_action response,
                        categories = (case resp_categories response of
                                        None \<Rightarrow> [] | Some cs \<Rightarrow> cs),
                        isChecking = False, error = None\<rparr>
                   | Rejected err \<Rightarrow>
                       (result u)\<lparr>isChecking := False,
                          error := Some (if message err = [] then js ''Failed to check content''
                                         else message err)\<rparr>)
            \<and> onCheck_calls (hook_run opts [Fire (next_timer u) t, Settle (next_rid u) out]
                      (check opts B tB u))
                = (case out of
                     Resolved response \<Rightarrow>
                       if onCheck opts then onCheck_calls u @ [response] else onCheck_calls u
                   | Rejected err \<Rightarrow> onCheck_calls u)
            \<and> onError_calls (hook_run opts [Fire (next_timer u) t, Settle (next_rid u) out]
                      (check opts B tB u))
                = (case out of
                     Resolved response \<Rightarrow> onError_calls u
                   | Rejected err \<Rightarrow>
                       if onError opts then onError_calls u @ [err] else onError_calls u)"
    if h: "\<not> is_blank B \<and> tB + debounceMs_of opts \<le> t
           \<and> (\<forall>err. out = Rejected err \<longrightarrow> err_name err \<noteq> js ''AbortError'')"
  proof -
    from h have nb: "\<not> is_blank B" and late: "tB + debounceMs_of opts \<le> t"
      and ok: "\<forall>err. out = Rejected err \<longrightarrow> err_name err \<noteq> js ''AbortError''"
      by auto
    note cfs = check_fire_settle [OF invu en clu nb late ok]
    have "\<forall>x\<in>set (delivered u). \<not> (fst x = issued s \<or> fst x = issued u)"
      using wu invu by (auto simp: waiting_def hook_inv_def)
    then have "filter (\<lambda>x. fst x = issued s \<or> fst x = issued u) (delivered u) = []"
      by (simp add: filter_empty_conv)
    then show ?thesis
      using cfs by simp
  qed
  from A Bblank Bfull show ?thesis by blast
qed

text \<open>
  The theorem for the call \<open>a\<close> at 0 ms and the call \<open>ab\<close> at 100 ms under the default
  delay of 500 ms: after the timer has fired at 600 ms and the response has come, the one
  request sent is that for \<open>ab\<close> and the one outcome delivered is its response.
\<close>

theorem debounce_latest_call_wins_witness:
  "sent (hook_run sample_options
       [Check (Str (js ''a'')) 0, Check (Str (js ''ab'')) 100, Fire 2 600,
        Settle 0 (Resolved block_response)] (useModeration sample_options))
     = [(1, \<lparr>content = js ''ab'', req_policyId = js ''balanced'', req_contentType = Text,
             metadata = None\<rparr>)]
   \<and> delivered (hook_run sample_options
       [Check (Str (js ''a'')) 0, Check (Str (js ''ab'')) 100, Fire 2 600,
        Settle 0 (Resolved block_response)] (useModeration sample_options))
     = [(1, Resolved block_response)]
   \<and> result (hook_run sample_options
       [Check (Str (js ''a'')) 0, Check (Str (js ''ab'')) 100, Fire 2 600,
        Settle 0 (Resolved block_response)] (useModeration sample_options))
     = \<lparr>safe = False, flagged = True, action = Block, categories = [], isChecking = False,
        error = None\<rparr>
   \<and> onCheck_calls (hook_run sample_options
       [Check (Str (js ''a'')) 0, Check (Str (js ''ab'')) 100, Fire 2 600,
        Settle 0 (Resolved block_response)] (useModeration sample_options))
     = [block_response]
   \<and> onError_calls (hook_run sample_options
       [Check (Str (js ''a'')) 0, Check (Str (js ''ab'')) 100, Fire 2 600,
        Settle 0 (Resolved block_response)] (useModeration sample_options))
     = []"
proof -
  let ?o = sample_options
  let ?s = "hook_run ?o [] (useModeration ?o)"
  let ?u = "hook_run ?o (Check (Str (js ''a'')) 0 # []) ?s"
  have en: "enabled_of ?o" by (simp add: sample_options_def enabled_of_def)
  have key: "apiKey ?o \<noteq> []" by (simp add: sample_options_def js_def)
  have mid: "\<forall>e\<in>set []. before (0 + debounceMs_of ?o) e" by simp
  have tB: "100 < 0 + debounceMs_of ?o" by (simp add: sample_options_def debounceMs_of_def)
  have h: "\<not> is_blank (Str (js ''ab'')) \<and> 100 + debounceMs_of ?o \<le> 600
           \<and> (\<forall>err. Resolved block_response = Rejected err \<longrightarrow> err_name err \<noteq> js ''AbortError'')"
    by (simp add: sample_options_def debounceMs_of_def js_def trim_def isWhiteSpace_def)
  have u: "next_timer ?u = 2" "next_rid ?u = 0" "issued ?u = 1" "sent ?u = []" "delivered ?u = []"
    "onCheck_calls ?u = []" "onError_calls ?u = []"
    by (simp_all add: check_def useModeration_def sample_options_def enabled_of_def js_def
        Let_def setTimeout_def trim_def isWhiteSpace_def)
  from debounce_latest_call_wins [where opts = ?o and pre = "[]" and s = ?s and mid = "[]"
      and tA = 0 and A = "Str (js ''a'')" and tB = 100 and u = ?u and B = "Str (js ''ab'')"
      and t = 600 and out = "Resolved block_response", OF en key refl mid tB refl] h
  have "sent (hook_run ?o [Fire (next_timer ?u) 600, Settle (next_rid ?u) (Resolved block_response)]
                (check ?o (Str (js ''ab'')) 100 ?u))
          = sent ?u @ [(issued ?u, checkRequest ?o (Str (js ''ab'')))]"
    and "delivered (hook_run ?o [Fire (next_timer ?u) 600, Settle (next_rid ?u) (Resolved block_response)]
                (check ?o (Str (js ''ab'')) 100 ?u))
          = delivered ?u @ [(issued ?u, Resolved block_response)]"
    and "result (hook_run ?o [Fire (next_timer ?u) 600, Settle (next_rid ?u) (Resolved block_response)]
                (check ?o (Str (js ''ab'')) 100 ?u))
          = \<lparr>safe = resp_safe block_response, flagged = resp_flagged block_response,
             action = resp_action block_response,
             categories = (case resp_categories block_response of None \<Rightarrow> [] | Some cs \<Rightarrow> cs),
             isChecking = False, error = None\<rparr>"
    and "onCheck_calls (hook_run ?o [Fire (next_timer ?u) 600, Settle (next_rid ?u) (Resolved block_response)]
                (check ?o (Str (js ''ab'')) 100 ?u))
          = (if onCheck ?o then onCheck_calls ?u @ [block_response] else onCheck_calls ?u)"
    and "onError_calls (hook_run ?o [Fire (next_timer ?u) 600, Settle (next_rid ?u) (Resolved block_response)]
                (check ?o (Str (js ''ab'')) 100 ?u))
          = onError_calls ?u"
    by simp_all
  then show ?thesis
    unfolding u by (simp add: sample_options_def block_response_def)
qed

subsection \<open>What the video upload submits\<close>

lemma onloadedmetadata_hook:
  assumes "duration video \<le> maxDurationSeconds_of props"
    and "seekResponse video (min 1 (duration video * 0.1)) = Seeked"
    and "\<forall>t\<in>set (sample_times (extractFramesCount_of props) (duration video)).
           seekResponse video t = Seeked"
  shows "hook (snd (onloadedmetadata True props f video now s)) =
         (if 0 < extractFramesCount_of props
          then check (hook_options props)
                 (Req (video_request props f video
                    (map (picture video)
                       (sample_times (extractFramesCount_of props) (duration video)))))
                 now (hook s)
          else hook s)"
proof -
  let ?t0 = "min 1 (duration video * 0.1)"
  let ?v1 = "video\<lparr>currentTime := ?t0,
               events := events video @ [SeekIssued ?t0, FrameCaptured ?t0]\<rparr>"
  let ?s3 = "s\<lparr>st_duration := duration video, processingStage := GeneratingThumbnail,
               thumbnail := Some (picture video ?t0)\<rparr>"
  let ?frames = "map (picture video) (sample_times (extractFramesCount_of props) (duration video))"
  obtain v2 s4 r where E: "extractFrames True props ?v1 ?s3 = (v2, s4, r)"
    by (cases "extractFrames True props ?v1 ?s3") auto
  from extractFrames_result(6) [OF E] have h: "hook s4 = hook s" by simp
  from extractFrames_result(9) [OF E] assms(3) have r: "r = Some (Inr ?frames)" by simp
  have len: "length ?frames = extractFramesCount_of props"
    by (simp add: sample_times_def)
  show ?thesis
    using assms(1) E h len generateThumbnail_seeked [OF assms(2)]
    unfolding r
    by (auto simp: onloadedmetadata_def Let_def split: option.splits sum.splits)
qed

lemma video_request_first_frame:
  "0 < n \<Longrightarrow> content (video_request props f video (map pic (sample_times n d))) = pic 0"
  by (cases n) (simp_all add: video_request_def sample_times_def upt_rec)

lemma caught_hook [simp]: "hook (caught props f m s) = hook s"
  by (simp add: caught_def Let_def)

lemma reject_file_hook [simp]: "hook (reject_file props f m s) = hook s"
  by (simp add: reject_file_def)

text \<open>Whether the metadata handler calls \<open>check\<close>, for every course it can take.\<close>

lemma onloadedmetadata_hook_cases:
  "hook (snd (onloadedmetadata ctx props f video now s)) =
   (if ctx \<and> duration video \<le> maxDurationSeconds_of props
       \<and> seekResponse video (min 1 (duration video * 0.1)) = Seeked
       \<and> (\<forall>t\<in>set (sample_times (extractFramesCount_of props) (duration video)).
             seekResponse video t = Seeked)
       \<and> 0 < extractFramesCount_of props
    then check (hook_options props)
           (Req (video_request props f video
              (map (picture video)
                 (sample_times (extractFramesCount_of props) (duration video)))))
           now (hook s)
    else hook s)"
proof (cases "duration video \<le> maxDurationSeconds_of props")
  case False
  then show ?thesis
    by (simp add: onloadedmetadata_too_long)
next
  case short: True
  show ?thesis
  proof (cases ctx)
    case False
    then show ?thesis
      using short by (simp add: onloadedmetadata_def generateThumbnail_def Let_def)
  next
    case ctx: True
    let ?t0 = "min 1 (duration video * 0.1)"
    show ?thesis
    proof (cases "seekResponse video ?t0 = Seeked")
      case False
      then show ?thesis
        using short ctx
        by (cases "seekResponse video ?t0")
           (auto simp: onloadedmetadata_def generateThumbnail_def Let_def)
    next
      case thumb: True
      show ?thesis
      proof (cases "\<forall>t\<in>set (sample_times (extractFramesCount_of props) (duration video)).
                      seekResponse video t = Seeked")
        case True
        with onloadedmetadata_hook [OF short thumb True, of f now s] short ctx thumb
        show ?thesis by simp
      next
        case False
        let ?v1 = "video\<lparr>currentTime := ?t0,
                     events := events video @ [SeekIssued ?t0, FrameCaptured ?t0]\<rparr>"
        let ?s3 = "s\<lparr>st_duration := duration video, processingStage := GeneratingThumbnail,
                     thumbnail := Some (picture video ?t0)\<rparr>"
        obtain v2 s4 r where E: "extractFrames True props ?v1 ?s3 = (v2, s4, r)"
          by (cases "extractFrames True props ?v1 ?s3") auto
        from extractFrames_result(6) [OF E] have h: "hook s4 = hook s" by simp
        from extractFrames_result(9) [OF E] False have r: "r = None" by simp
        have "hook (snd (onloadedmetadata ctx props f video now s)) = hook s"
          using short ctx E h generateThumbnail_seeked [OF thumb]
          unfolding r
          by (auto simp: onloadedmetadata_def Let_def split: option.splits sum.splits)
        with False show ?thesis by auto
      qed
    qed
  qed
qed

text \<open>
  C9 as stated fails: of the two frames extracted from a 10 s video only the first is the
  content of the one request that is sent once the timer of the check has fired.
\<close>

theorem video_frames_submitted_counterexample:
  "snd (snd (extractFrames True (sample_props (Some 2)) (sample_video 10)
      (ModeratedVideoUpload (sample_props (Some 2)))))
     = Some (Inr [js ''frame-0'', js ''frame-n''])
   \<and> map (content \<circ> snd)
       (sent (timer_fired (hook_options (sample_props (Some 2))) 1 0
          (hook (snd (onloadedmetadata True (sample_props (Some 2)) sample_file (sample_video 10) 0
             (ModeratedVideoUpload (sample_props (Some 2))))))))
     = [js ''frame-0'']"
proof -
  let ?p = "sample_props (Some 2)"
  let ?v = "sample_video 10"
  let ?s = "ModeratedVideoUpload ?p"
  have n: "extractFramesCount_of ?p = 2"
    by (simp add: extractFramesCount_of_def sample_props_def)
  have ts: "sample_times 2 10 = [0, 5]"
    by (simp add: sample_times_def upt_rec)
  have d: "duration ?v = 10" by (simp add: sample_video_def)
  have a: "duration ?v \<le> maxDurationSeconds_of ?p"
    by (simp add: sample_video_def maxDurationSeconds_of_def sample_props_def)
  have b: "seekResponse ?v (min 1 (duration ?v * 0.1)) = Seeked"
    by (simp add: sample_video_def always_seeked_def)
  have c: "\<forall>t\<in>set (sample_times (extractFramesCount_of ?p) (duration ?v)). seekResponse ?v t = Seeked"
    by (simp add: sample_video_def always_seeked_def)
  obtain v' s' r where E: "extractFrames True ?p ?v ?s = (v', s', r)"
    by (cases "extractFrames True ?p ?v ?s") auto
  from extractFrames_result(9) [OF E] c
  have "r = Some (Inr (map (picture ?v) (sample_times 2 10)))"
    by (simp add: n d)
  then have "r = Some (Inr [js ''frame-0'', js ''frame-n''])"
    by (simp add: ts sample_video_def frame_at_def)
  with E have 1: "snd (snd (extractFrames True ?p ?v ?s)) = Some (Inr [js ''frame-0'', js ''frame-n''])"
    by simp
  have req: "video_request ?p sample_file ?v (map (picture ?v) (sample_times 2 10))
        = \<lparr>content = js ''frame-0'', req_policyId = js ''balanced'', req_contentType = Video,
           metadata = Some \<lparr>totalFrames = 2, videoDuration = 10, filename = js ''clip.mp4'',
                            fileSize = 1048576, demoMode = True\<rparr>\<rparr>"
    by (simp add: video_request_def ts sample_video_def frame_at_def sample_props_def
        sample_file_def js_def)
  have "hook (snd (onloadedmetadata True ?p sample_file ?v 0 ?s))
        = check (hook_options ?p)
            (Req (video_request ?p sample_file ?v (map (picture ?v) (sample_times 2 10)))) 0 (hook ?s)"
    using onloadedmetadata_hook [OF a b c, of sample_file 0 ?s] by (simp add: n d)
  then have 2: "map (content \<circ> snd)
       (sent (timer_fired (hook_options ?p) 1 0 (hook (snd (onloadedmetadata True ?p sample_file ?v 0 ?s)))))
     = [js ''frame-0'']"
    unfolding req
    by (simp add: ModeratedVideoUpload_def useModeration_def hook_options_def sample_props_def
        check_def enabled_of_def disabled_of_def debounceMs_of_def Let_def setTimeout_def
        timer_fired_def js_def)
  from 1 2 show ?thesis by blast
qed

text \<open>
  C9, amended. The metadata handler makes a \<open>check\<close> call exactly when the video is
  accepted (its duration is within the limit), the canvas gives a context, the thumbnail seek
  and every sample seek complete, and the frame count is at least one. It then makes exactly
  one call. The content of its request is the first extracted frame, the picture at time 0;
  the request carries the number of extracted frames as \<open>totalFrames\<close>; with the
  component enabled and the client present the call sets one timer, which holds that
  request. The other frames are not submitted. In every other case, a seek that does not
  complete included, the handler makes no \<open>check\<close> call and leaves the hook as it was.
\<close>

theorem video_checks_first_frame:
  assumes "rq = video_request props f video
                (map (picture video) (sample_times (extractFramesCount_of props) (duration video)))"
    and "all_done \<longleftrightarrow>
           ctx \<and> duration video \<le> maxDurationSeconds_of props
           \<and> seekResponse video (min 1 (duration video * 0.1)) = Seeked
           \<and> (\<forall>t\<in>set (sample_times (extractFramesCount_of props) (duration video)).
                 seekResponse video t = Seeked)
           \<and> 0 < extractFramesCount_of props"
  shows "hook (snd (onloadedmetadata ctx props f video now s))
           = (if all_done then check (hook_options props) (Req rq) now (hook s) else hook s)
       \<and> (0 < extractFramesCount_of props \<longrightarrow> content rq = picture video 0)
       \<and> req_contentType rq = Video
       \<and> map_option totalFrames (metadata rq) = Some (extractFramesCount_of props)
       \<and> (all_done \<and> \<not> disabled_of props \<and> clientRef (hook s) \<noteq> None \<longrightarrow>
            timers (hook (snd (onloadedmetadata ctx props f video now s)))
              = filter (\<lambda>tm. Some (handle tm) \<noteq> timeoutRef (hook s)) (timers (hook s))
                @ [\<lparr>handle = next_timer (hook s), deadline = now, issue = issued (hook s),
                    captured = Req rq\<rparr>]
            \<and> sent (hook (snd (onloadedmetadata ctx props f video now s))) = sent (hook s))"
proof -
  have h: "hook (snd (onloadedmetadata ctx props f video now s))
           = (if all_done then check (hook_options props) (Req rq) now (hook s) else hook s)"
    unfolding assms by (rule onloadedmetadata_hook_cases)
  have c: "content rq = picture video 0" if "0 < extractFramesCount_of props"
    unfolding assms(1) using that by (rule video_request_first_frame)
  have m: "req_contentType rq = Video
       \<and> map_option totalFrames (metadata rq) = Some (extractFramesCount_of props)"
    by (simp add: assms(1) video_request_def sample_times_def)
  have t: "timers (hook (snd (onloadedmetadata ctx props f video now s)))
              = filter (\<lambda>tm. Some (handle tm) \<noteq> timeoutRef (hook s)) (timers (hook s))
                @ [\<lparr>handle = next_timer (hook s), deadline = now, issue = issued (hook s),
                    captured = Req rq\<rparr>]
            \<and> sent (hook (snd (onloadedmetadata ctx props f video now s))) = sent (hook s)"
    if g: "all_done \<and> \<not> disabled_of props \<and> clientRef (hook s) \<noteq> None"
  proof -
    from g have en: "enabled_of (hook_options props)" and cl: "clientRef (hook s) \<noteq> None"
      by (simp_all add: enabled_of_def hook_options_def)
    have dz: "debounceMs_of (hook_options props) = 0"
      by (simp add: debounceMs_of_def hook_options_def)
    from g h have "hook (snd (onloadedmetadata ctx props f video now s))
           = check (hook_options props) (Req rq) now (hook s)"
      by simp
    then show ?thesis
      by (simp add: check_open [OF en cl] dz)
  qed
  from h c m t show ?thesis by blast
qed

text \<open>
  The amended claim in a freshly mounted component, with two frames. For the 10 s video on
  which every seek completes one timer is set, and its request holds the first frame and
  counts two frames. For the 10 s video on which the seek to 5 s fails, the first frame is
  captured and no timer is set.
\<close>

theorem video_checks_first_frame_witness:
  "map captured (timers (hook (snd (onloadedmetadata True (sample_props (Some 2)) sample_file
      (sample_video 10) 0 (ModeratedVideoUpload (sample_props (Some 2)))))))
   = [Req \<lparr>content = js ''frame-0'', req_policyId = js ''balanced'', req_contentType = Video,
           metadata = Some \<lparr>totalFrames = 2, videoDuration = 10, filename = js ''clip.mp4'',
                            fileSize = 1048576, demoMode = True\<rparr>\<rparr>]
   \<and> timers (hook (snd (onloadedmetadata True (sample_props (Some 2)) sample_file
      broken_video 0 (ModeratedVideoUpload (sample_props (Some 2)))))) = []
   \<and> issued (hook (snd (onloadedmetadata True (sample_props (Some 2)) sample_file
      broken_video 0 (ModeratedVideoUpload (sample_props (Some 2)))))) = 0"
proof -
  let ?p = "sample_props (Some 2)"
  let ?v = "sample_video 10"
  let ?s = "ModeratedVideoUpload ?p"
  let ?rq = "video_request ?p sample_file ?v
               (map (picture ?v) (sample_times (extractFramesCount_of ?p) (duration ?v)))"
  have n: "extractFramesCount_of ?p = 2"
    by (simp add: extractFramesCount_of_def sample_props_def)
  have ts: "sample_times 2 10 = [0, 5]"
    by (simp add: sample_times_def upt_rec)
  have d: "duration ?v = 10" "duration broken_video = 10"
    by (simp_all add: sample_video_def broken_video_def)
  have mx: "maxDurationSeconds_of ?p = 300"
    by (simp add: maxDurationSeconds_of_def sample_props_def)
  have ok: "True \<longleftrightarrow>
           True \<and> duration ?v \<le> maxDurationSeconds_of ?p
           \<and> seekResponse ?v (min 1 (duration ?v * 0.1)) = Seeked
           \<and> (\<forall>t\<in>set (sample_times (extractFramesCount_of ?p) (duration ?v)).
                 seekResponse ?v t = Seeked)
           \<and> 0 < extractFramesCount_of ?p"
    unfolding n d mx ts by (simp add: sample_video_def always_seeked_def)
  have bad: "False \<longleftrightarrow>
           True \<and> duration broken_video \<le> maxDurationSeconds_of ?p
           \<and> seekResponse broken_video (min 1 (duration broken_video * 0.1)) = Seeked
           \<and> (\<forall>t\<in>set (sample_times (extractFramesCount_of ?p) (duration broken_video)).
                 seekResponse broken_video t = Seeked)
           \<and> 0 < extractFramesCount_of ?p"
    unfolding n d mx ts by (simp add: broken_video_def fails_at_five_def)
  have g: "True \<and> \<not> disabled_of ?p \<and> clientRef (hook ?s) \<noteq> None"
    by (simp add: disabled_of_def sample_props_def ModeratedVideoUpload_def useModeration_def
        hook_options_def js_def)
  have req: "?rq = \<lparr>content = js ''frame-0'', req_policyId = js ''balanced'', req_contentType = Video,
           metadata = Some \<lparr>totalFrames = 2, videoDuration = 10, filename = js ''clip.mp4'',
                            fileSize = 1048576, demoMode = True\<rparr>\<rparr>"
    unfolding n d ts
    by (simp add: video_request_def sample_video_def frame_at_def sample_props_def
        sample_file_def js_def)
  from video_checks_first_frame [OF refl ok, of sample_file 0 ?s] g
  have "timers (hook (snd (onloadedmetadata True ?p sample_file ?v 0 ?s)))
          = filter (\<lambda>tm. Some (handle tm) \<noteq> timeoutRef (hook ?s)) (timers (hook ?s))
            @ [\<lparr>handle = next_timer (hook ?s), deadline = 0, issue = issued (hook ?s),
                captured = Req ?rq\<rparr>]"
    by blast
  then have 1: "map captured (timers (hook (snd (onloadedmetadata True ?p sample_file ?v 0 ?s))))
                = [Req ?rq]"
    by (simp add: ModeratedVideoUpload_def useModeration_def)
  from video_checks_first_frame [OF refl bad, of sample_file 0 ?s]
  have "hook (snd (onloadedmetadata True ?p sample_file broken_video 0 ?s)) = hook ?s"
    by simp
  then have 2: "timers (hook (snd (onloadedmetadata True ?p sample_file broken_video 0 ?s))) = []"
    and 3: "issued (hook (snd (onloadedmetadata True ?p sample_file broken_video 0 ?s))) = 0"
    by (simp_all add: ModeratedVideoUpload_def useModeration_def)
  from 1 2 3 show ?thesis
    unfolding req by simp
qed

subsection \<open>A superseded request that is in flight\<close>

text \<open>
  C1 on the code. The call \<open>a\<close> is made at 0 ms, its timer fires at 500 ms and its request
  is in flight when the call \<open>ab\<close> is made at 600 ms. That call aborts the controller of the
  first one, but the request was never given the controller's signal: when its response
  comes, the callback of the first call sets the result and calls \<open>onCheck\<close>, although the
  timer of the second call is still pending. A failure of the superseded request likewise
  sets the error and calls \<open>onError\<close>.
\<close>

theorem superseded_request_is_delivered:
  "delivered (hook_run sample_options
      [Check (Str (js ''a'')) 0, Fire 1 500, Check (Str (js ''ab'')) 600,
       Settle 0 (Resolved block_response)] (useModeration sample_options))
     = [(0, Resolved block_response)]
   \<and> onCheck_calls (hook_run sample_options
      [Check (Str (js ''a'')) 0, Fire 1 500, Check (Str (js ''ab'')) 600,
       Settle 0 (Resolved block_response)] (useModeration sample_options))
     = [block_response]
   \<and> result (hook_run sample_options
      [Check (Str (js ''a'')) 0, Fire 1 500, Check (Str (js ''ab'')) 600,
       Settle 0 (Resolved block_response)] (useModeration sample_options))
     = \<lparr>safe = False, flagged = True, action = Block, categories = [], isChecking = False,
        error = None\<rparr>
   \<and> aborted (hook_run sample_options
      [Check (Str (js ''a'')) 0, Fire 1 500, Check (Str (js ''ab'')) 600,
       Settle 0 (Resolved block_response)] (useModeration sample_options))
     = [True]
   \<and> map issue (timers (hook_run sample_options
      [Check (Str (js ''a'')) 0, Fire 1 500, Check (Str (js ''ab'')) 600,
       Settle 0 (Resolved block_response)] (useModeration sample_options)))
     = [1]
   \<and> onError_calls (hook_run sample_options
      [Check (Str (js ''a'')) 0, Fire 1 500, Check (Str (js ''ab'')) 600,
       Settle 0 (Rejected network_error)] (useModeration sample_options))
     = [network_error]
   \<and> error (result (hook_run sample_options
      [Check (Str (js ''a'')) 0, Fire 1 500, Check (Str (js ''ab'')) 600,
       Settle 0 (Rejected network_error)] (useModeration sample_options)))
     = Some (js ''Failed to fetch'')"
  by (simp add: check_def useModeration_def sample_options_def enabled_of_def debounceMs_of_def
      js_def Let_def setTimeout_def clearTimeout_def abort_def trim_def isWhiteSpace_def
      timer_fired_def settled_def catch_error_def block_response_def network_error_def
      safe_result_def)
end
